theory Spec2Isabelle
  imports Complex_Main "HOL-Library.Word"
begin

section \<open>JavaScript values\<close>

text \<open>
  A JavaScript string is a sequence of UTF-16 code units. Literals of the source are
  written \<open>S ''...''\<close>.
\<close>

type_synonym jsstring = "16 word list"

definition S :: "string \<Rightarrow> jsstring" where
  "S = map of_char"

text \<open>
  A number is an IEEE double: NaN, an infinity, or a finite double, which is modelled by
  the rational it is equal to. The two zeros are the one value \<open>Fin 0\<close>: the
  operations the source applies to numbers (\<open>!x\<close>, \<open>isNaN(x)\<close>, \<open>x < 0\<close>,
  \<open>x * 60\<close>, \<open>Date.now() - x\<close>, \<open>new Date(x)\<close> and printing) give the same
  result on both. The model follows the language standard; what an engine does when its
  resources run out (the call stack, the memory, the longest string) is not part of it.
\<close>

datatype jsnum = NaN | NegInf | Fin rat | PosInf

text \<open>
  The values \<open>JSON.parse\<close> yields and \<open>JSON.stringify\<close> accepts. \<open>JNum m e\<close> is the
  number written \<open>m * 10 ^ e\<close>, that is the double nearest to it (\<open>num_value\<close> below).
  An object lists its own properties in creation order, each key once. \<open>undefined\<close> is
  \<open>None\<close> of \<open>json option\<close>.
\<close>

datatype json =
    JNull
  | JBool bool
  | JNum int int
  | JStr jsstring
  | JArr "json list"
  | JObj "(jsstring \<times> json) list"

type_synonym jsval = "json option"

datatype js_error =
    ENOENT
  | EACCES
  | SyntaxError
  | TypeError

subsection \<open>Exceptions\<close>

text \<open>
  A computation that may throw returns the error or its value; \<open>bind\<close> runs the next
  step unless an error was thrown, \<open>try_catch\<close> is the statement of that name.
\<close>

definition bind :: "js_error + 'a \<Rightarrow> ('a \<Rightarrow> js_error + 'b) \<Rightarrow> js_error + 'b" where
  "bind x f = (case x of Inl e \<Rightarrow> Inl e | Inr v \<Rightarrow> f v)"

definition try_catch :: "js_error + 'a \<Rightarrow> (js_error \<Rightarrow> js_error + 'a) \<Rightarrow> js_error + 'a" where
  "try_catch body handler = (case body of Inl e \<Rightarrow> handler e | Inr v \<Rightarrow> Inr v)"

text \<open>The results of a list of computations run in order, or the first error thrown.\<close>

fun first_error :: "(js_error + 'a) list \<Rightarrow> js_error + 'a list" where
  "first_error [] = Inr []"
| "first_error (r # rs) = bind r (\<lambda>x. bind (first_error rs) (\<lambda>xs. Inr (x # xs)))"

subsection \<open>Decimal digits and \<open>Number.prototype.toString\<close>\<close>

definition digit_char :: "nat \<Rightarrow> 16 word" where
  "digit_char d = of_nat (48 + d)"

fun dec_digits :: "nat \<Rightarrow> jsstring" where
  "dec_digits n = (if n < 10 then [digit_char n] else dec_digits (n div 10) @ [digit_char (n mod 10)])"

declare dec_digits.simps [simp del]

text \<open>An integer below \<open>10 ^ 21\<close> in magnitude prints in plain decimal notation.\<close>

definition int_to_string :: "int \<Rightarrow> jsstring" where
  "int_to_string n = (if n < 0 then 0x2D # dec_digits (nat (- n)) else dec_digits (nat n))"

fun strip_zeros :: "nat \<Rightarrow> nat \<Rightarrow> nat \<times> nat" where
  "strip_zeros s z =
     (if s \<noteq> 0 \<and> s mod 10 = 0 then strip_zeros (s div 10) (Suc z) else (s, z))"

declare strip_zeros.simps [simp del]

text \<open>
  The notation \<open>Number::toString\<close> gives to the decimal \<open>m * 10 ^ e\<close>: with \<open>s\<close> the
  digits of the magnitude without trailing zeros, \<open>k\<close> their count and \<open>n\<close> the
  position of the decimal point, the four notations of the language standard.
\<close>

definition number_to_string :: "int \<Rightarrow> int \<Rightarrow> jsstring" where
  "number_to_string m e =
     (if m = 0 then S ''0''
      else
        let (s, z) = strip_zeros (nat \<bar>m\<bar>) 0;
            ds = dec_digits s;
            k = int (length ds);
            n = k + e + int z;
            sign = (if m < 0 then S ''-'' else []);
            body =
              (if k \<le> n \<and> n \<le> 21 then ds @ replicate (nat (n - k)) 0x30
               else if 0 < n \<and> n \<le> 21 then take (nat n) ds @ S ''.'' @ drop (nat n) ds
               else if - 6 < n \<and> n \<le> 0 then S ''0.'' @ replicate (nat (- n)) 0x30 @ ds
               else
                 let ex = (if n - 1 < 0 then S ''-'' else S ''+'') @ dec_digits (nat \<bar>n - 1\<bar>)
                 in if k = 1 then ds @ S ''e'' @ ex
                    else take 1 ds @ S ''.'' @ drop 1 ds @ S ''e'' @ ex)
        in sign @ body)"

subsection \<open>Doubles\<close>

definition scale10 :: "rat \<Rightarrow> int \<Rightarrow> rat" where
  "scale10 x e = (if 0 \<le> e then x * 10 ^ nat e else x / 10 ^ nat (- e))"

definition scale2 :: "rat \<Rightarrow> int \<Rightarrow> rat" where
  "scale2 x e = (if 0 \<le> e then x * 2 ^ nat e else x / 2 ^ nat (- e))"

text \<open>The number of binary and of decimal digits of a positive integer.\<close>

function bit_length :: "int \<Rightarrow> int" where
  "bit_length n = (if n \<le> 0 then 0 else 1 + bit_length (n div 2))"
  by pat_completeness auto
termination bit_length
  by (relation "measure nat") auto

declare bit_length.simps [simp del]

function digit_count :: "int \<Rightarrow> int" where
  "digit_count n = (if n \<le> 0 then 0 else 1 + digit_count (n div 10))"
  by pat_completeness auto
termination digit_count
  by (relation "measure nat") auto

declare digit_count.simps [simp del]

text \<open>
  For \<open>a > 0\<close>, the exponent \<open>k\<close> with \<open>2 ^ k \<le> a < 2 ^ (k + 1)\<close>: the bit lengths of
  numerator and denominator give it up to one.
\<close>

definition binary_exponent :: "rat \<Rightarrow> int" where
  "binary_exponent a =
     (let (p, q) = quotient_of a; k = bit_length p - bit_length q
      in if scale2 1 k \<le> a then k else k - 1)"

definition round_half_even :: "rat \<Rightarrow> int" where
  "round_half_even x =
     (let f = \<lfloor>x\<rfloor>; d = x - of_int f
      in if d < 1 / 2 then f else if 1 / 2 < d then f + 1 else if even f then f else f + 1)"

text \<open>
  The double nearest to a real number, a tie going to the even significand: 53 bits of
  significand for exponents from \<open>- 1022\<close>, the spacing of the subnormal numbers below
  that (so that what is at most \<open>2 ^ - 1075\<close> in magnitude becomes zero), and an
  infinity for what rounds to \<open>2 ^ 1024\<close> or more.
\<close>

definition round_double :: "rat \<Rightarrow> jsnum" where
  "round_double x =
     (if x = 0 then Fin 0
      else
        let a = \<bar>x\<bar>;
            e = max (binary_exponent a) (- 1022) - 52;
            v = scale2 (of_int (round_half_even (scale2 a (- e)))) e
        in if scale2 1 1024 \<le> v then (if x < 0 then NegInf else PosInf)
           else Fin (if x < 0 then - v else v))"

text \<open>The value of the number written \<open>m * 10 ^ e\<close>.\<close>

definition num_value :: "int \<Rightarrow> int \<Rightarrow> jsnum" where
  "num_value m e = round_double (scale10 (of_int m) e)"

text \<open>
  The digits \<open>Number::toString\<close> prints for a double \<open>a > 0\<close>: the integer \<open>s\<close> and
  the exponent \<open>e\<close> with the fewest digits in \<open>s\<close> such that \<open>s * 10 ^ e\<close> rounds to
  \<open>a\<close>; of two such \<open>s\<close> the one nearer to \<open>a\<close>. Seventeen digits always suffice.
  \<open>decimal_exponent a\<close> is the \<open>n\<close> with \<open>10 ^ (n - 1) \<le> a < 10 ^ n\<close>.
\<close>

definition decimal_exponent :: "rat \<Rightarrow> int" where
  "decimal_exponent a =
     (let (p, q) = quotient_of a; d = digit_count p - digit_count q
      in if a < scale10 1 d then d else d + 1)"

definition round_trips :: "rat \<Rightarrow> int \<Rightarrow> int \<Rightarrow> bool" where
  "round_trips a s e \<longleftrightarrow> round_double (scale10 (of_int s) e) = Fin a"

definition digits_at :: "rat \<Rightarrow> int \<Rightarrow> int option" where
  "digits_at a e =
     (let lo = \<lfloor>scale10 a (- e)\<rfloor>; hi = lo + 1;
          below = a - scale10 (of_int lo) e; above = scale10 (of_int hi) e - a
      in if round_trips a lo e \<and> round_trips a hi e then
           Some (if below < above then lo else if above < below then hi
                 else if even lo then lo else hi)
         else if round_trips a lo e then Some lo
         else if round_trips a hi e then Some hi
         else None)"

fun shortest_digits :: "rat \<Rightarrow> int \<Rightarrow> nat \<Rightarrow> int \<times> int" where
  "shortest_digits a e 0 = (\<lfloor>scale10 a (- e)\<rfloor>, e)"
| "shortest_digits a e (Suc more) =
     (case digits_at a e of
        Some s \<Rightarrow> (s, e)
      | None \<Rightarrow> shortest_digits a (e - 1) more)"

definition double_digits :: "rat \<Rightarrow> int \<times> int" where
  "double_digits a = shortest_digits a (decimal_exponent a - 1) 17"

text \<open>\<open>Number::toString\<close>\<close>

definition double_to_string :: "jsnum \<Rightarrow> jsstring" where
  "double_to_string x =
     (case x of
        NaN \<Rightarrow> S ''NaN''
      | NegInf \<Rightarrow> S ''-Infinity''
      | PosInf \<Rightarrow> S ''Infinity''
      | Fin r \<Rightarrow>
          if r = 0 then S ''0''
          else let (s, e) = double_digits \<bar>r\<bar> in number_to_string (if r < 0 then - s else s) e)"

text \<open>
  The product \<open>x * c\<close> with a constant \<open>c > 0\<close> and the difference \<open>Date.now() - x\<close>,
  both rounded as the arithmetic of doubles rounds.
\<close>

definition times_const :: "jsnum \<Rightarrow> rat \<Rightarrow> jsnum" where
  "times_const x c = (case x of Fin r \<Rightarrow> round_double (r * c) | _ \<Rightarrow> x)"

definition minus_from :: "int \<Rightarrow> jsnum \<Rightarrow> jsnum" where
  "minus_from now x =
     (case x of
        NaN \<Rightarrow> NaN | NegInf \<Rightarrow> PosInf | Fin r \<Rightarrow> round_double (of_int now - r) | PosInf \<Rightarrow> NegInf)"

subsection \<open>Whitespace and \<open>String.prototype.trim\<close>\<close>

definition is_js_space :: "16 word \<Rightarrow> bool" where
  "is_js_space c \<longleftrightarrow>
     c = 0x09 \<or> c = 0x0A \<or> c = 0x0B \<or> c = 0x0C \<or> c = 0x0D \<or> c = 0x20 \<or> c = 0xA0 \<or>
     c = 0x1680 \<or> (0x2000 \<le> c \<and> c \<le> 0x200A) \<or> c = 0x2028 \<or> c = 0x2029 \<or>
     c = 0x202F \<or> c = 0x205F \<or> c = 0x3000 \<or> c = 0xFEFF"

definition trim :: "jsstring \<Rightarrow> jsstring" where
  "trim s = rev (dropWhile is_js_space (rev (dropWhile is_js_space s)))"

subsection \<open>Conversions: \<open>ToString\<close>, \<open>ToNumber\<close>, \<open>ToBoolean\<close>\<close>

fun intercalate :: "jsstring \<Rightarrow> jsstring list \<Rightarrow> jsstring" where
  "intercalate sep [] = []"
| "intercalate sep [x] = x"
| "intercalate sep (x # y # ys) = x @ sep @ intercalate sep (y # ys)"

text \<open>
  \<open>ToString\<close> of a value. An array joins its elements with commas, \<open>null\<close> elements
  printing as nothing. A plain object is converted by the first of its methods
  \<open>toString\<close> and \<open>valueOf\<close> that is callable and returns a primitive: the inherited
  \<open>toString\<close> gives \<open>[object Object]\<close>, the inherited \<open>valueOf\<close> returns the object
  itself, and an own property of either name, which in parsed JSON is never a function,
  hides the inherited method. So an object with an own property \<open>toString\<close> has no
  conversion and a \<open>TypeError\<close> is thrown.
\<close>

fun to_string :: "json \<Rightarrow> js_error + jsstring" where
  "to_string JNull = Inr (S ''null'')"
| "to_string (JBool b) = Inr (if b then S ''true'' else S ''false'')"
| "to_string (JNum m e) = Inr (double_to_string (num_value m e))"
| "to_string (JStr s) = Inr s"
| "to_string (JArr xs) =
     bind (first_error (map (\<lambda>x. if x = JNull then Inr [] else to_string x) xs))
       (\<lambda>parts. Inr (intercalate (S '','') parts))"
| "to_string (JObj kvs) =
     (if S ''toString'' \<in> fst ` set kvs then Inl TypeError else Inr (S ''[object Object]''))"

definition is_digit :: "16 word \<Rightarrow> bool" where
  "is_digit c \<longleftrightarrow> 0x30 \<le> c \<and> c \<le> 0x39"

definition digit_val :: "16 word \<Rightarrow> nat" where
  "digit_val c = unat c - 48"

definition digits_val :: "jsstring \<Rightarrow> nat" where
  "digits_val ds = foldl (\<lambda>a c. 10 * a + digit_val c) 0 ds"

definition hex_val :: "16 word \<Rightarrow> nat option" where
  "hex_val c =
     (if 0x30 \<le> c \<and> c \<le> 0x39 then Some (unat c - 48)
      else if 0x61 \<le> c \<and> c \<le> 0x66 then Some (unat c - 87)
      else if 0x41 \<le> c \<and> c \<le> 0x46 then Some (unat c - 55)
      else None)"

text \<open>The digits of \<open>ds\<close> in the given radix, \<open>None\<close> when one is not a digit of it.\<close>

fun radix_val :: "nat \<Rightarrow> nat \<Rightarrow> jsstring \<Rightarrow> nat option" where
  "radix_val r a [] = Some a"
| "radix_val r a (c # cs) =
     (case hex_val c of
        None \<Rightarrow> None
      | Some d \<Rightarrow> if d < r then radix_val r (r * a + d) cs else None)"

text \<open>An unsigned \<open>StrDecimalLiteral\<close>.\<close>

definition unsigned_decimal :: "jsstring \<Rightarrow> jsnum" where
  "unsigned_decimal t =
     (if t = S ''Infinity'' then PosInf
      else
        let ip = takeWhile is_digit t;
            r1 = dropWhile is_digit t;
            fp = (case r1 of [] \<Rightarrow> [] | c # r \<Rightarrow> if c = 0x2E then takeWhile is_digit r else []);
            r2 = (case r1 of [] \<Rightarrow> [] | c # r \<Rightarrow> if c = 0x2E then dropWhile is_digit r else r1);
            mant = scale10 (of_nat (digits_val (ip @ fp))) (- int (length fp))
        in if ip = [] \<and> fp = [] then NaN
           else
             (case r2 of
                [] \<Rightarrow> round_double mant
              | c # r3 \<Rightarrow>
                  if c = 0x65 \<or> c = 0x45 then
                    (let neg = (case r3 of [] \<Rightarrow> False | d # _ \<Rightarrow> d = 0x2D);
                         ed = (case r3 of [] \<Rightarrow> [] | d # r4 \<Rightarrow> if d = 0x2B \<or> d = 0x2D then r4 else r3)
                     in if ed \<noteq> [] \<and> list_all is_digit ed
                        then round_double
                               (scale10 mant (if neg then - int (digits_val ed) else int (digits_val ed)))
                        else NaN)
                  else NaN))"

text \<open>
  \<open>StringToNumber\<close>: the empty string is 0, anything that is no numeric literal is NaN,
  and the value of a literal is rounded to a double.
\<close>

definition str_to_number :: "jsstring \<Rightarrow> jsnum" where
  "str_to_number s =
     (let t = trim s in
      case t of
        [] \<Rightarrow> Fin 0
      | c # r \<Rightarrow>
          if c = 0x30 \<and> r \<noteq> [] \<and> hd r \<in> {0x78, 0x58, 0x6F, 0x4F, 0x62, 0x42} then
            (let radix = (if hd r \<in> {0x78, 0x58} then 16 else if hd r \<in> {0x6F, 0x4F} then 8 else 2)
             in if tl r = [] then NaN
                else case radix_val radix 0 (tl r) of
                       None \<Rightarrow> NaN
                     | Some n \<Rightarrow> round_double (of_nat n))
          else if c = 0x2B then unsigned_decimal r
          else if c = 0x2D then
            (case unsigned_decimal r of
               NaN \<Rightarrow> NaN | PosInf \<Rightarrow> NegInf | NegInf \<Rightarrow> PosInf | Fin x \<Rightarrow> Fin (- x))
          else unsigned_decimal t)"

text \<open>
  \<open>ToNumber\<close>; an array or object is first turned into its string, which throws where
  \<open>ToString\<close> throws.
\<close>

fun to_number :: "jsval \<Rightarrow> js_error + jsnum" where
  "to_number None = Inr NaN"
| "to_number (Some JNull) = Inr (Fin 0)"
| "to_number (Some (JBool b)) = Inr (if b then Fin 1 else Fin 0)"
| "to_number (Some (JNum m e)) = Inr (num_value m e)"
| "to_number (Some (JStr s)) = Inr (str_to_number s)"
| "to_number (Some (JArr xs)) = bind (to_string (JArr xs)) (\<lambda>s. Inr (str_to_number s))"
| "to_number (Some (JObj kvs)) = bind (to_string (JObj kvs)) (\<lambda>s. Inr (str_to_number s))"

text \<open>\<open>ToBoolean\<close>: what \<open>!x\<close> and \<open>if (x)\<close> test.\<close>

fun truthy :: "jsval \<Rightarrow> bool" where
  "truthy None = False"
| "truthy (Some JNull) = False"
| "truthy (Some (JBool b)) = b"
| "truthy (Some (JNum m e)) = (num_value m e \<noteq> Fin 0)"
| "truthy (Some (JStr s)) = (s \<noteq> [])"
| "truthy (Some (JArr xs)) = True"
| "truthy (Some (JObj kvs)) = True"

text \<open>The global \<open>isNaN(x)\<close> and the comparison \<open>x < 0\<close>.\<close>

definition negative :: "jsnum \<Rightarrow> bool" where
  "negative x = (case x of NaN \<Rightarrow> False | NegInf \<Rightarrow> True | Fin r \<Rightarrow> r < 0 | PosInf \<Rightarrow> False)"

definition isNaN :: "jsval \<Rightarrow> js_error + bool" where
  "isNaN x = bind (to_number x) (\<lambda>n. Inr (n = NaN))"

definition less_zero :: "jsval \<Rightarrow> js_error + bool" where
  "less_zero x = bind (to_number x) (\<lambda>n. Inr (negative n))"

text \<open>\<open>x * 60 * 60 * 1000\<close>, evaluated from the left.\<close>

definition hours_to_ms :: "jsval \<Rightarrow> js_error + jsnum" where
  "hours_to_ms x =
     bind (to_number x) (\<lambda>n. Inr (times_const (times_const (times_const n 60) 60) 1000))"

text \<open>Property access \<open>v.k\<close> on a value that is not \<open>null\<close>: own properties of objects only.\<close>

fun get_prop :: "json \<Rightarrow> jsstring \<Rightarrow> jsval" where
  "get_prop (JObj kvs) k = map_of kvs k"
| "get_prop v k = None"

section \<open>\<open>JSON.stringify(value, null, 2)\<close> and \<open>JSON.parse\<close>\<close>

subsection \<open>Serialising\<close>

definition hex_digit :: "nat \<Rightarrow> 16 word" where
  "hex_digit n = (if n < 10 then of_nat (48 + n) else of_nat (87 + n))"

definition hex4 :: "16 word \<Rightarrow> jsstring" where
  "hex4 c =
     [hex_digit (unat c div 4096), hex_digit (unat c div 256 mod 16),
      hex_digit (unat c div 16 mod 16), hex_digit (unat c mod 16)]"

definition unicode_escape :: "16 word \<Rightarrow> jsstring" where
  "unicode_escape c = [0x5C, 0x75] @ hex4 c"

definition is_high_surrogate :: "16 word \<Rightarrow> bool" where
  "is_high_surrogate c \<longleftrightarrow> 0xD800 \<le> c \<and> c \<le> 0xDBFF"

definition is_low_surrogate :: "16 word \<Rightarrow> bool" where
  "is_low_surrogate c \<longleftrightarrow> 0xDC00 \<le> c \<and> c \<le> 0xDFFF"

text \<open>
  \<open>QuoteJSONString\<close> without the enclosing quotes: the short escapes, \<open>\uXXXX\<close> for the
  other control characters and for a surrogate that has no partner.
\<close>

fun quote_chars :: "jsstring \<Rightarrow> jsstring" where
  "quote_chars [] = []"
| "quote_chars (c # cs) =
     (if c = 0x08 then [0x5C, 0x62] @ quote_chars cs
      else if c = 0x09 then [0x5C, 0x74] @ quote_chars cs
      else if c = 0x0A then [0x5C, 0x6E] @ quote_chars cs
      else if c = 0x0C then [0x5C, 0x66] @ quote_chars cs
      else if c = 0x0D then [0x5C, 0x72] @ quote_chars cs
      else if c = 0x22 then [0x5C, 0x22] @ quote_chars cs
      else if c = 0x5C then [0x5C, 0x5C] @ quote_chars cs
      else if c < 0x20 then unicode_escape c @ quote_chars cs
      else if is_high_surrogate c then
        (case cs of
           [] \<Rightarrow> unicode_escape c
         | d # ds \<Rightarrow>
             if is_low_surrogate d then c # d # quote_chars ds
             else unicode_escape c @ quote_chars cs)
      else if is_low_surrogate c then unicode_escape c @ quote_chars cs
      else c # quote_chars cs)"

definition quote :: "jsstring \<Rightarrow> jsstring" where
  "quote s = [0x22] @ quote_chars s @ [0x22]"

text \<open>
  The order in which an object's own properties are enumerated: array indices in
  ascending order first, then the other keys in creation order.
\<close>

definition is_array_index :: "jsstring \<Rightarrow> bool" where
  "is_array_index k \<longleftrightarrow>
     k \<noteq> [] \<and> list_all is_digit k \<and> (hd k = 0x30 \<longrightarrow> length k = 1) \<and> digits_val k \<le> 4294967294"

definition enum_order :: "(jsstring \<times> 'a) list \<Rightarrow> (jsstring \<times> 'a) list" where
  "enum_order kvs =
     sort_key (\<lambda>p. digits_val (fst p)) (filter (\<lambda>p. is_array_index (fst p)) kvs) @
     filter (\<lambda>p. \<not> is_array_index (fst p)) kvs"

definition indent :: "nat \<Rightarrow> jsstring" where
  "indent n = replicate (2 * n) 0x20"

text \<open>
  \<open>SerializeJSONProperty\<close> with the gap of two spaces, at nesting depth \<open>n\<close>; a number
  that is not finite is written \<open>null\<close>.
\<close>

fun ser :: "nat \<Rightarrow> json \<Rightarrow> jsstring" where
  "ser n JNull = S ''null''"
| "ser n (JBool b) = (if b then S ''true'' else S ''false'')"
| "ser n (JNum m e) =
     (case num_value m e of Fin r \<Rightarrow> double_to_string (Fin r) | _ \<Rightarrow> S ''null'')"
| "ser n (JStr s) = quote s"
| "ser n (JArr xs) =
     (if xs = [] then S ''[]''
      else S ''['' @ [0x0A] @ indent (Suc n) @
           intercalate (S '','' @ [0x0A] @ indent (Suc n)) (map (ser (Suc n)) xs) @
           [0x0A] @ indent n @ S '']'')"
| "ser n (JObj kvs) =
     (if kvs = [] then S ''{}''
      else S ''{'' @ [0x0A] @ indent (Suc n) @
           intercalate (S '','' @ [0x0A] @ indent (Suc n))
             (map (\<lambda>p. quote (fst p) @ S '': '' @ snd p)
                (enum_order (map (\<lambda>p. (fst p, ser (Suc n) (snd p))) kvs))) @
           [0x0A] @ indent n @ S ''}'')"

definition JSON_stringify :: "json \<Rightarrow> jsstring" where
  "JSON_stringify v = ser 0 v"

subsection \<open>Parsing\<close>

definition is_json_ws :: "16 word \<Rightarrow> bool" where
  "is_json_ws c \<longleftrightarrow> c = 0x20 \<or> c = 0x09 \<or> c = 0x0A \<or> c = 0x0D"

definition skip_ws :: "jsstring \<Rightarrow> jsstring" where
  "skip_ws s = dropWhile is_json_ws s"

definition simple_escape :: "16 word \<Rightarrow> 16 word option" where
  "simple_escape e =
     (if e = 0x22 then Some 0x22
      else if e = 0x5C then Some 0x5C
      else if e = 0x2F then Some 0x2F
      else if e = 0x62 then Some 0x08
      else if e = 0x66 then Some 0x0C
      else if e = 0x6E then Some 0x0A
      else if e = 0x72 then Some 0x0D
      else if e = 0x74 then Some 0x09
      else None)"

definition hex4_val :: "16 word \<Rightarrow> 16 word \<Rightarrow> 16 word \<Rightarrow> 16 word \<Rightarrow> 16 word option" where
  "hex4_val a b c d =
     (case (hex_val a, hex_val b, hex_val c, hex_val d) of
        (Some w, Some x, Some y, Some z) \<Rightarrow> Some (of_nat (((w * 16 + x) * 16 + y) * 16 + z))
      | _ \<Rightarrow> None)"

definition cons_fst :: "'a \<Rightarrow> ('a list \<times> 'b) option \<Rightarrow> ('a list \<times> 'b) option" where
  "cons_fst x r = map_option (\<lambda>p. (x # fst p, snd p)) r"

text \<open>The characters of a string literal after its opening quote, and what follows it.\<close>

fun parse_string_chars :: "jsstring \<Rightarrow> (jsstring \<times> jsstring) option" where
  "parse_string_chars [] = None"
| "parse_string_chars (c # cs) =
     (if c = 0x22 then Some ([], cs)
      else if c = 0x5C then
        (case cs of
           [] \<Rightarrow> None
         | e # es \<Rightarrow>
             if e = 0x75 then
               (case es of
                  h1 # h2 # h3 # h4 # rest \<Rightarrow>
                    (case hex4_val h1 h2 h3 h4 of
                       None \<Rightarrow> None
                     | Some u \<Rightarrow> cons_fst u (parse_string_chars rest))
                | _ \<Rightarrow> None)
             else
               (case simple_escape e of
                  None \<Rightarrow> None
                | Some u \<Rightarrow> cons_fst u (parse_string_chars es)))
      else if c < 0x20 then None
      else cons_fst c (parse_string_chars cs))"

text \<open>A number literal: \<open>-? (0 | [1-9][0-9]*) (. [0-9]+)? ([eE] [+-]? [0-9]+)?\<close>.\<close>

definition mk_num :: "bool \<Rightarrow> nat \<Rightarrow> int \<Rightarrow> json" where
  "mk_num neg m e =
     (if m = 0 then JNum 0 0
      else let (s, z) = strip_zeros m 0
           in JNum (if neg then - int s else int s) (e + int z))"

definition parse_number :: "jsstring \<Rightarrow> (json \<times> jsstring) option" where
  "parse_number s =
     (let neg = (s \<noteq> [] \<and> hd s = 0x2D);
          s1 = (if neg then tl s else s);
          ip = (if s1 \<noteq> [] \<and> hd s1 = 0x30 then [0x30] else takeWhile is_digit s1);
          r1 = drop (length ip) s1;
          dot = (r1 \<noteq> [] \<and> hd r1 = 0x2E);
          fp = (if dot then takeWhile is_digit (tl r1) else []);
          r2 = (if dot then dropWhile is_digit (tl r1) else r1);
          ex = (r2 \<noteq> [] \<and> (hd r2 = 0x65 \<or> hd r2 = 0x45));
          r3 = (if ex then tl r2 else r2);
          eneg = (ex \<and> r3 \<noteq> [] \<and> hd r3 = 0x2D);
          r4 = (if ex \<and> r3 \<noteq> [] \<and> (hd r3 = 0x2B \<or> hd r3 = 0x2D) then tl r3 else r3);
          ed = (if ex then takeWhile is_digit r4 else []);
          r5 = (if ex then dropWhile is_digit r4 else r2);
          e = (if eneg then - int (digits_val ed) else int (digits_val ed))
      in if ip = [] \<or> (dot \<and> fp = []) \<or> (ex \<and> ed = []) then None
         else Some (mk_num neg (digits_val (ip @ fp)) (e - int (length fp)), r5))"

text \<open>\<open>CreateDataProperty\<close>: a repeated key keeps its place and takes the later value.\<close>

fun obj_put :: "(jsstring \<times> json) list \<Rightarrow> jsstring \<Rightarrow> json \<Rightarrow> (jsstring \<times> json) list" where
  "obj_put [] k v = [(k, v)]"
| "obj_put (p # ps) k v = (if fst p = k then (k, v) # ps else p # obj_put ps k v)"

text \<open>
  Recursive descent. \<open>parse_elements\<close> reads the elements of an array after its opening
  bracket, \<open>parse_members\<close> the members of an object after its opening brace. The tests
  \<open>length r < length s\<close> hold whenever they are reached (a value is never empty); they
  make the recursion visibly terminating.
\<close>

function parse_value :: "jsstring \<Rightarrow> (json \<times> jsstring) option"
  and parse_elements :: "jsstring \<Rightarrow> (json list \<times> jsstring) option"
  and parse_members :: "(jsstring \<times> json) list \<Rightarrow> jsstring \<Rightarrow> ((jsstring \<times> json) list \<times> jsstring) option"
where
  "parse_value s =
     (case skip_ws s of
        [] \<Rightarrow> None
      | c # cs \<Rightarrow>
          if c = 0x5B then
            (case skip_ws cs of
               [] \<Rightarrow> None
             | d # ds \<Rightarrow>
                 if d = 0x5D then Some (JArr [], ds)
                 else map_option (\<lambda>p. (JArr (fst p), snd p)) (parse_elements cs))
          else if c = 0x7B then
            (case skip_ws cs of
               [] \<Rightarrow> None
             | d # ds \<Rightarrow>
                 if d = 0x7D then Some (JObj [], ds)
                 else map_option (\<lambda>p. (JObj (fst p), snd p)) (parse_members [] cs))
          else if c = 0x22 then map_option (\<lambda>p. (JStr (fst p), snd p)) (parse_string_chars cs)
          else if take 4 (c # cs) = S ''true'' then Some (JBool True, drop 4 (c # cs))
          else if take 5 (c # cs) = S ''false'' then Some (JBool False, drop 5 (c # cs))
          else if take 4 (c # cs) = S ''null'' then Some (JNull, drop 4 (c # cs))
          else parse_number (c # cs))"
| "parse_elements s =
     (case parse_value s of
        None \<Rightarrow> None
      | Some (v, r) \<Rightarrow>
          if length r < length s then
            (case skip_ws r of
               [] \<Rightarrow> None
             | c # cs \<Rightarrow>
                 if c = 0x2C then cons_fst v (parse_elements cs)
                 else if c = 0x5D then Some ([v], cs)
                 else None)
          else None)"
| "parse_members acc s =
     (case skip_ws s of
        [] \<Rightarrow> None
      | q # qs \<Rightarrow>
          if q = 0x22 then
            (case parse_string_chars qs of
               None \<Rightarrow> None
             | Some (k, r0) \<Rightarrow>
                 (case skip_ws r0 of
                    [] \<Rightarrow> None
                  | colon # r1 \<Rightarrow>
                      if colon = 0x3A \<and> length r1 < length s then
                        (case parse_value r1 of
                           None \<Rightarrow> None
                         | Some (v, r) \<Rightarrow>
                             if length r < length s then
                               (case skip_ws r of
                                  [] \<Rightarrow> None
                                | c # cs \<Rightarrow>
                                    if c = 0x2C then parse_members (obj_put acc k v) cs
                                    else if c = 0x7D then Some (obj_put acc k v, cs)
                                    else None)
                             else None)
                      else None))
          else None)"
  by pat_completeness auto

lemma length_skip_ws: "length (skip_ws s) \<le> length s"
  by (simp add: skip_ws_def length_dropWhile_le)

lemma skip_ws_Cons_length: "skip_ws s = c # cs \<Longrightarrow> length cs < length s"
  using length_skip_ws [of s] by simp

lemma parse_string_chars_length: "parse_string_chars s = Some (k, r) \<Longrightarrow> length r < length s"
proof (induction s arbitrary: k r rule: parse_string_chars.induct)
  case 1
  then show ?case by simp
next
  case (2 c cs)
  then show ?case
    by (fastforce simp: cons_fst_def split: if_splits list.splits option.splits)
qed

termination parse_value
  apply (relation "measure (\<lambda>x. case x of Inl s \<Rightarrow> 2 * length s + 1
      | Inr (Inl s) \<Rightarrow> 2 * length s + 2 | Inr (Inr (acc, s)) \<Rightarrow> 2 * length s + 2)")
  apply (auto dest!: skip_ws_Cons_length parse_string_chars_length)
  done

declare parse_value.simps [simp del] parse_elements.simps [simp del] parse_members.simps [simp del]

definition JSON_parse :: "jsstring \<Rightarrow> js_error + json" where
  "JSON_parse s =
     (case parse_value s of
        None \<Rightarrow> Inl SyntaxError
      | Some (v, r) \<Rightarrow> if skip_ws r = [] then Inr v else Inl SyntaxError)"

section \<open>Dates\<close>

text \<open>
  A time value is a number of milliseconds since the epoch; \<open>None\<close> is the time value
  NaN of an invalid date. \<open>TimeClip\<close> drops the fraction and refuses what lies more than
  \<open>8.64e15\<close> ms from the epoch.
\<close>

definition time_clip :: "jsnum \<Rightarrow> int option" where
  "time_clip x =
     (case x of
        Fin r \<Rightarrow>
          if \<bar>r\<bar> > 8640000000000000 then None
          else Some (if 0 \<le> r then \<lfloor>r\<rfloor> else \<lceil>r\<rceil>)
      | _ \<Rightarrow> None)"

text \<open>\<open>a >= b\<close> on two dates: false as soon as one of them is invalid.\<close>

definition date_ge :: "int option \<Rightarrow> int option \<Rightarrow> bool" where
  "date_ge a b = (case (a, b) of (Some x, Some y) \<Rightarrow> y \<le> x | _ \<Rightarrow> False)"

text \<open>
  The civil date (year, month, day) of a day number counted from 1970-01-01. Days are
  counted within their 400-year era from 1 March of its first year; the era is cut into
  centuries, these into four-year cycles and these into years, the last century of an era
  and the last year of a cycle being one day longer.
\<close>

definition civil_from_days :: "int \<Rightarrow> int \<times> int \<times> int" where
  "civil_from_days z0 =
     (let z = z0 + 719468;
          era = z div 146097;
          doe = z mod 146097;
          n100 = min 3 (doe div 36524);
          r100 = doe - n100 * 36524;
          n4 = r100 div 1461;
          r4 = r100 mod 1461;
          n1 = min 3 (r4 div 365);
          doy = r4 - n1 * 365;
          yoe = n100 * 100 + n4 * 4 + n1;
          mp = (5 * doy + 2) div 153;
          d = doy - (153 * mp + 2) div 5 + 1;
          m = (if mp < 10 then mp + 3 else mp - 9);
          y = yoe + era * 400 + (if m \<le> 2 then 1 else 0)
      in (y, m, d))"

definition pad :: "nat \<Rightarrow> int \<Rightarrow> jsstring" where
  "pad w n = replicate (w - length (dec_digits (nat n))) 0x30 @ dec_digits (nat n)"

definition iso_year :: "int \<Rightarrow> jsstring" where
  "iso_year y =
     (if 0 \<le> y \<and> y \<le> 9999 then pad 4 y
      else (if y < 0 then S ''-'' else S ''+'') @ pad 6 \<bar>y\<bar>)"

text \<open>\<open>Date.prototype.toISOString\<close> of a valid date: \<open>YYYY-MM-DDTHH:mm:ss.sssZ\<close>.\<close>

definition toISOString :: "int \<Rightarrow> jsstring" where
  "toISOString t =
     (let (y, m, d) = civil_from_days (t div 86400000);
          ms = t mod 86400000
      in iso_year y @ S ''-'' @ pad 2 m @ S ''-'' @ pad 2 d @ S ''T'' @
         pad 2 (ms div 3600000) @ S '':'' @ pad 2 (ms div 60000 mod 60) @ S '':'' @
         pad 2 (ms div 1000 mod 60) @ S ''.'' @ pad 3 (ms mod 1000) @ S ''Z'')"

text \<open>
  The part of \<open>Date.parse\<close> that the language standard fixes for the strings
  \<open>toISOString\<close> writes with a four-digit year: \<open>YYYY-MM-DDTHH:mm:ss.sssZ\<close> with every
  field in range. Any other string is left to the engine (see \<open>Date_parse\<close> below);
  \<open>parse_iso\<close> answers \<open>None\<close> for it.
\<close>

definition days_in_month :: "int \<Rightarrow> int \<Rightarrow> int" where
  "days_in_month y m =
     (if m = 2 then (if (y mod 4 = 0 \<and> y mod 100 \<noteq> 0) \<or> y mod 400 = 0 then 29 else 28)
      else if m = 4 \<or> m = 6 \<or> m = 9 \<or> m = 11 then 30
      else 31)"

definition days_from_civil :: "int \<Rightarrow> int \<Rightarrow> int \<Rightarrow> int" where
  "days_from_civil y0 m d =
     (let y = (if m \<le> 2 then y0 - 1 else y0);
          era = y div 400;
          yoe = y - era * 400;
          doy = (153 * (if 2 < m then m - 3 else m + 9) + 2) div 5 + d - 1;
          doe = yoe * 365 + yoe div 4 - yoe div 100 + doy
      in era * 146097 + doe - 719468)"

definition number_at :: "nat \<Rightarrow> nat \<Rightarrow> jsstring \<Rightarrow> int option" where
  "number_at i n s =
     (let ds = take n (drop i s)
      in if length ds = n \<and> list_all is_digit ds then Some (int (digits_val ds)) else None)"

definition parse_iso :: "jsstring \<Rightarrow> int option" where
  "parse_iso s =
     (if length s = 24 \<and> s ! 4 = 0x2D \<and> s ! 7 = 0x2D \<and> s ! 10 = 0x54 \<and> s ! 13 = 0x3A \<and>
         s ! 16 = 0x3A \<and> s ! 19 = 0x2E \<and> s ! 23 = 0x5A then
        (case (number_at 0 4 s, number_at 5 2 s, number_at 8 2 s, number_at 11 2 s,
               number_at 14 2 s, number_at 17 2 s, number_at 20 3 s) of
           (Some y, Some mo, Some d, Some h, Some mi, Some sec, Some ms) \<Rightarrow>
             if 1 \<le> mo \<and> mo \<le> 12 \<and> 1 \<le> d \<and> d \<le> days_in_month y mo \<and>
                h \<le> 23 \<and> mi \<le> 59 \<and> sec \<le> 59
             then Some (days_from_civil y mo d * 86400000 + h * 3600000 + mi * 60000 +
                        sec * 1000 + ms)
             else None
         | _ \<Rightarrow> None)
      else None)"

section \<open>The platform and the configuration\<close>

text \<open>
  What a request handler reads from its surroundings: the clock (\<open>Date.now()\<close> and
  \<open>new Date()\<close>, two readings), the engine's \<open>Date.parse\<close>, whose result on strings that
  are not in the standard's format is the engine's own business, and the wording of the
  engine's error messages.
\<close>

record platform =
  Date_now :: int
  new_Date :: int
  Date_parse :: "jsstring \<Rightarrow> int option"
  error_message :: "js_error \<Rightarrow> jsstring"

text \<open>
  \<open>new Date(v)\<close> with one argument: a string, or an array or object turned into its
  string, is parsed; any other value is converted to a number.
\<close>

definition date_of_value :: "platform \<Rightarrow> jsval \<Rightarrow> js_error + int option" where
  "date_of_value pf v =
     (case v of
        None \<Rightarrow> Inr None
      | Some (JStr s) \<Rightarrow> Inr (Date_parse pf s)
      | Some (JArr xs) \<Rightarrow> bind (to_string (JArr xs)) (\<lambda>s. Inr (Date_parse pf s))
      | Some (JObj kvs) \<Rightarrow> bind (to_string (JObj kvs)) (\<lambda>s. Inr (Date_parse pf s))
      | Some x \<Rightarrow> bind (to_number (Some x)) (\<lambda>n. Inr (time_clip n)))"

text \<open>The constants the server computes from its environment when it starts.\<close>

record config =
  PORT :: json
  DATA_FILE :: jsstring
  NODE_ENV :: jsstring
  CORS_ORIGINS :: "jsstring list"
  AUTO_DELETE_HOURS :: int

text \<open>
  \<open>parseInt(s)\<close> with no radix: leading whitespace, a sign, \<open>0x\<close> for base 16, then the
  longest run of digits; \<open>None\<close> is NaN.
\<close>

definition parseInt :: "jsstring \<Rightarrow> int option" where
  "parseInt s =
     (let t = dropWhile is_js_space s;
          neg = (t \<noteq> [] \<and> hd t = 0x2D);
          u = (if t \<noteq> [] \<and> (hd t = 0x2B \<or> hd t = 0x2D) then tl t else t);
          hex = (take 2 u = S ''0x'' \<or> take 2 u = S ''0X'');
          r = (if hex then 16 else 10);
          v = (if hex then drop 2 u else u);
          ds = takeWhile (\<lambda>c. case hex_val c of None \<Rightarrow> False | Some d \<Rightarrow> d < r) v
      in if ds = [] then None
         else case radix_val r 0 ds of
                None \<Rightarrow> None
              | Some n \<Rightarrow> Some (if neg then - int n else int n))"

text \<open>\<open>parseInt(process.env.AUTO_DELETE_HOURS) || 24\<close>; an unset variable is \<open>undefined\<close>.\<close>

definition auto_delete_hours_of_env :: "jsstring option \<Rightarrow> int" where
  "auto_delete_hours_of_env v =
     (case parseInt (case v of None \<Rightarrow> S ''undefined'' | Some s \<Rightarrow> s) of
        None \<Rightarrow> 24
      | Some n \<Rightarrow> if n = 0 then 24 else n)"

section \<open>The data file\<close>

text \<open>
  The data file as the server finds it: absent, present but not accessible (reading and
  writing both fail), or present with its content. \<open>writable\<close> says whether the file
  system lets the process write at all.
\<close>

datatype file_state = Missing | Inaccessible | Content jsstring

record filesystem =
  data_file :: file_state
  writable :: bool

definition readFileSync :: "filesystem \<Rightarrow> js_error + jsstring" where
  "readFileSync fs =
     (case data_file fs of
        Missing \<Rightarrow> Inl ENOENT
      | Inaccessible \<Rightarrow> Inl EACCES
      | Content d \<Rightarrow> Inr d)"

definition writeFileSync :: "filesystem \<Rightarrow> jsstring \<Rightarrow> js_error + filesystem" where
  "writeFileSync fs d =
     (if writable fs \<and> data_file fs \<noteq> Inaccessible then Inr (fs\<lparr>data_file := Content d\<rparr>)
      else Inl EACCES)"

subsection \<open>\<open>readMessages\<close> and \<open>writeMessages\<close>\<close>

definition readMessages :: "filesystem \<Rightarrow> js_error + json" where
  "readMessages fs =
     try_catch (bind (readFileSync fs) (\<lambda>data. JSON_parse data)) (\<lambda>error. Inr (JArr []))"

definition writeMessages :: "json \<Rightarrow> filesystem \<Rightarrow> js_error + (bool \<times> filesystem)" where
  "writeMessages messages fs =
     try_catch
       (bind (writeFileSync fs (JSON_stringify messages)) (\<lambda>fs'. Inr (True, fs')))
       (\<lambda>error. Inr (False, fs))"

text \<open>\<open>ensureDataDirectory\<close>, as far as the data file goes: an absent file is created empty.\<close>

definition ensureDataDirectory :: "filesystem \<Rightarrow> filesystem" where
  "ensureDataDirectory fs =
     (if data_file fs = Missing then
        (case writeFileSync fs (JSON_stringify (JArr [])) of Inl e \<Rightarrow> fs | Inr fs' \<Rightarrow> fs')
      else fs)"

section \<open>The server\<close>

text \<open>
  The process state that requests change: the data file and the one interval timer.
  A timer remembers the \<open>hours\<close> it was started with and its period. The calls to
  \<open>log\<close> only print and are left out.
\<close>

record timer =
  timer_hours :: jsval
  intervalMs :: jsnum

record server =
  fs :: filesystem
  autoDeleteTimer :: "timer option"

datatype http_method = GET | POST | PUT | DELETE

text \<open>
  A request after the middleware: its method, the segments of its path, its original URL
  and the body \<open>express.json()\<close> left in \<open>req.body\<close> (an object, \<open>{}\<close> when none was sent).
\<close>

record request =
  req_method :: http_method
  req_path :: "jsstring list"
  req_originalUrl :: jsstring
  req_body :: json

record response =
  res_status :: nat
  res_body :: json

definition JInt :: "int \<Rightarrow> json" where
  "JInt n = mk_num (n < 0) (nat \<bar>n\<bar>) 0"

definition method_name :: "http_method \<Rightarrow> jsstring" where
  "method_name m = (case m of GET \<Rightarrow> S ''GET'' | POST \<Rightarrow> S ''POST'' | PUT \<Rightarrow> S ''PUT'' | DELETE \<Rightarrow> S ''DELETE'')"

subsection \<open>Array methods on what \<open>readMessages\<close> returned\<close>

text \<open>\<open>messages.push(x)\<close>: a \<open>TypeError\<close> unless \<open>messages\<close> is an array.\<close>

definition array_push :: "json \<Rightarrow> json \<Rightarrow> js_error + json" where
  "array_push messages x = (case messages of JArr xs \<Rightarrow> Inr (JArr (xs @ [x])) | _ \<Rightarrow> Inl TypeError)"

text \<open>\<open>xs.filter(p)\<close> where the callback may throw.\<close>

fun filter_throwing :: "('a \<Rightarrow> js_error + bool) \<Rightarrow> 'a list \<Rightarrow> js_error + 'a list" where
  "filter_throwing p [] = Inr []"
| "filter_throwing p (x # xs) =
     bind (p x) (\<lambda>keep. bind (filter_throwing p xs) (\<lambda>ys. Inr (if keep then x # ys else ys)))"

definition array_filter :: "(json \<Rightarrow> js_error + bool) \<Rightarrow> json \<Rightarrow> js_error + json list" where
  "array_filter p messages = (case messages of JArr xs \<Rightarrow> filter_throwing p xs | _ \<Rightarrow> Inl TypeError)"

text \<open>The callback \<open>msg => msg.id !== messageId\<close>; reading a property of \<open>null\<close> throws.\<close>

definition id_differs :: "jsval \<Rightarrow> json \<Rightarrow> js_error + bool" where
  "id_differs messageId msg =
     (if msg = JNull then Inl TypeError
      else Inr (get_prop msg (S ''id'') \<noteq> messageId))"

text \<open>The callback \<open>msg => new Date(msg.timestamp) >= cutoffTime\<close>.\<close>

definition not_older :: "platform \<Rightarrow> int option \<Rightarrow> json \<Rightarrow> js_error + bool" where
  "not_older pf cutoffTime msg =
     (if msg = JNull then Inl TypeError
      else bind (date_of_value pf (get_prop msg (S ''timestamp''))) (\<lambda>date.
             Inr (date_ge date cutoffTime)))"

subsection \<open>The timer\<close>

definition startAutoDeleteTimer :: "jsval \<Rightarrow> server \<Rightarrow> js_error + server" where
  "startAutoDeleteTimer hours st =
     bind (hours_to_ms hours) (\<lambda>ms.
       Inr (st\<lparr>autoDeleteTimer := Some \<lparr>timer_hours = hours, intervalMs = ms\<rparr>\<rparr>))"

text \<open>
  \<open>messages.length > 0\<close> on whatever was read: \<open>null\<close> throws, a value with no
  \<open>length\<close> gives false, an object's own \<open>length\<close> is converted to a number.
\<close>

definition length_positive :: "json \<Rightarrow> js_error + bool" where
  "length_positive messages =
     (case messages of
        JNull \<Rightarrow> Inl TypeError
      | JArr xs \<Rightarrow> Inr (xs \<noteq> [])
      | JStr s \<Rightarrow> Inr (s \<noteq> [])
      | JObj kvs \<Rightarrow>
          bind (to_number (map_of kvs (S ''length''))) (\<lambda>n.
            Inr (case n of Fin r \<Rightarrow> 0 < r | PosInf \<Rightarrow> True | _ \<Rightarrow> False))
      | _ \<Rightarrow> Inr False)"

text \<open>One tick of the interval timer \<open>tm\<close>: the callback given to \<open>setInterval\<close>.\<close>

definition sweep_tick :: "platform \<Rightarrow> timer \<Rightarrow> server \<Rightarrow> js_error + server" where
  "sweep_tick pf tm st =
     bind (readMessages (fs st)) (\<lambda>messages.
     bind (length_positive messages) (\<lambda>nonempty.
       if nonempty then
         (let cutoffTime = time_clip (minus_from (Date_now pf) (intervalMs tm)) in
          bind (array_filter (not_older pf cutoffTime) messages) (\<lambda>filteredMessages.
          bind (writeMessages (JArr filteredMessages) (fs st)) (\<lambda>(ok, fs').
            Inr (st\<lparr>fs := fs'\<rparr>))))
       else Inr st))"

subsection \<open>Route handlers\<close>

type_synonym handler =
  "config \<Rightarrow> platform \<Rightarrow> request \<Rightarrow> jsstring list \<Rightarrow> server \<Rightarrow> js_error + (response \<times> server)"

definition error_body :: "string \<Rightarrow> json" where
  "error_body msg = JObj [(S ''error'', JStr (S msg))]"

text \<open>\<open>app.get('/messages')\<close>\<close>

definition get_messages :: handler where
  "get_messages cfg pf req params st =
     bind (readMessages (fs st)) (\<lambda>messages.
       Inr (\<lparr>res_status = 200, res_body = messages\<rparr>, st))"

text \<open>\<open>text.trim()\<close>: a \<open>TypeError\<close> unless \<open>text\<close> is a string.\<close>

definition call_trim :: "jsval \<Rightarrow> js_error + jsstring" where
  "call_trim text = (case text of Some (JStr s) \<Rightarrow> Inr (trim s) | _ \<Rightarrow> Inl TypeError)"

text \<open>\<open>app.post('/messages')\<close>\<close>

definition post_messages :: handler where
  "post_messages cfg pf req params st =
     (let text = get_prop (req_body req) (S ''text'') in
      if \<not> truthy text then
        Inr (\<lparr>res_status = 400, res_body = error_body ''Message text is required''\<rparr>, st)
      else
        bind (call_trim text) (\<lambda>trimmed.
          if trimmed = [] then
            Inr (\<lparr>res_status = 400, res_body = error_body ''Message text is required''\<rparr>, st)
          else
            bind (readMessages (fs st)) (\<lambda>messages.
              let newMessage =
                    JObj [(S ''id'', JStr (int_to_string (Date_now pf))),
                          (S ''text'', JStr trimmed),
                          (S ''timestamp'', JStr (toISOString (new_Date pf)))]
              in bind (array_push messages newMessage) (\<lambda>messages'.
                 bind (writeMessages messages' (fs st)) (\<lambda>(ok, fs').
                   if ok then Inr (\<lparr>res_status = 201, res_body = newMessage\<rparr>, st\<lparr>fs := fs'\<rparr>)
                   else Inr (\<lparr>res_status = 500, res_body = error_body ''Failed to save message''\<rparr>,
                             st\<lparr>fs := fs'\<rparr>))))))"

text \<open>\<open>app.delete('/messages/:id')\<close>; \<open>req.params.id\<close> is the segment the route captured.\<close>

definition delete_message_by_id :: handler where
  "delete_message_by_id cfg pf req params st =
     (let messageId = (case params of [] \<Rightarrow> None | x # xs \<Rightarrow> Some (JStr x)) in
      bind (readMessages (fs st)) (\<lambda>messages.
        case messages of
          JNull \<Rightarrow> Inl TypeError
        | _ \<Rightarrow>
          bind (array_filter (id_differs messageId) messages) (\<lambda>filteredMessages.
            let initialLength = (case messages of JArr xs \<Rightarrow> length xs | _ \<Rightarrow> 0) in
            if length filteredMessages = initialLength then
              Inr (\<lparr>res_status = 404, res_body = error_body ''Message not found''\<rparr>, st)
            else
              bind (writeMessages (JArr filteredMessages) (fs st)) (\<lambda>(ok, fs').
                if ok then
                  Inr (\<lparr>res_status = 200,
                        res_body = JObj [(S ''message'', JStr (S ''Message deleted successfully'')),
                                         (S ''deletedCount'', JInt 1)]\<rparr>,
                       st\<lparr>fs := fs'\<rparr>)
                else
                  Inr (\<lparr>res_status = 500, res_body = error_body ''Failed to delete message''\<rparr>,
                       st\<lparr>fs := fs'\<rparr>)))))"

text \<open>\<open>app.delete('/messages')\<close>\<close>

definition delete_all_messages :: handler where
  "delete_all_messages cfg pf req params st =
     bind (writeMessages (JArr []) (fs st)) (\<lambda>(ok, fs').
       if ok then
         Inr (\<lparr>res_status = 200,
               res_body = JObj [(S ''message'', JStr (S ''All messages deleted successfully''))]\<rparr>,
              st\<lparr>fs := fs'\<rparr>)
       else
         Inr (\<lparr>res_status = 500, res_body = error_body ''Failed to delete messages''\<rparr>,
              st\<lparr>fs := fs'\<rparr>))"

text \<open>
  The test \<open>!hours || isNaN(hours) || hours < 0\<close> of the two handlers that take hours;
  it throws when the conversion of \<open>hours\<close> to a number throws.
\<close>

definition invalid_hours :: "jsval \<Rightarrow> js_error + bool" where
  "invalid_hours hours =
     (if \<not> truthy hours then Inr True
      else bind (isNaN hours) (\<lambda>nan. if nan then Inr True else less_zero hours))"

text \<open>A number that is neither NaN nor negative.\<close>

definition accepted_number :: "jsnum \<Rightarrow> bool" where
  "accepted_number x = (case x of Fin r \<Rightarrow> 0 \<le> r | PosInf \<Rightarrow> True | _ \<Rightarrow> False)"

text \<open>A template literal's \<open>${hours}\<close>.\<close>

definition template_value :: "jsval \<Rightarrow> js_error + jsstring" where
  "template_value v = (case v of None \<Rightarrow> Inr (S ''undefined'') | Some x \<Rightarrow> to_string x)"

text \<open>\<open>app.delete('/messages/older-than')\<close>\<close>

definition delete_older_than :: handler where
  "delete_older_than cfg pf req params st =
     (let hours = get_prop (req_body req) (S ''hours'') in
      bind (invalid_hours hours) (\<lambda>invalid.
      if invalid then
        Inr (\<lparr>res_status = 400, res_body = error_body ''Valid hours parameter is required''\<rparr>, st)
      else
        bind (readMessages (fs st)) (\<lambda>messages.
        bind (hours_to_ms hours) (\<lambda>ms.
          let cutoffTime = time_clip (minus_from (Date_now pf) ms) in
          bind (array_filter (not_older pf cutoffTime) messages) (\<lambda>filteredMessages.
          bind (writeMessages (JArr filteredMessages) (fs st)) (\<lambda>(ok, fs').
            if ok then
              (let deletedCount =
                     (case messages of JArr xs \<Rightarrow> int (length xs) | _ \<Rightarrow> 0)
                     - int (length filteredMessages)
               in bind (template_value hours) (\<lambda>shown.
                    Inr (\<lparr>res_status = 200,
                          res_body =
                            JObj [(S ''message'',
                                   JStr (S ''Messages older than '' @ shown @
                                         S '' hours deleted successfully'')),
                                  (S ''deletedCount'', JInt deletedCount)]\<rparr>,
                         st\<lparr>fs := fs'\<rparr>)))
            else
              Inr (\<lparr>res_status = 500, res_body = error_body ''Failed to delete old messages''\<rparr>,
                   st\<lparr>fs := fs'\<rparr>)))))))"

text \<open>\<open>app.post('/messages/auto-delete')\<close>\<close>

definition post_auto_delete :: handler where
  "post_auto_delete cfg pf req params st =
     (let hours = get_prop (req_body req) (S ''hours'') in
      bind (invalid_hours hours) (\<lambda>invalid.
      if invalid then
        Inr (\<lparr>res_status = 400, res_body = error_body ''Valid hours parameter is required''\<rparr>, st)
      else
        bind (startAutoDeleteTimer hours st) (\<lambda>st'.
        bind (template_value hours) (\<lambda>shown.
          Inr (\<lparr>res_status = 200,
                res_body =
                  JObj ([(S ''message'',
                          JStr (S ''Auto-deletion timer set to '' @ shown @ S '' hours''))] @
                        (case hours of None \<Rightarrow> [] | Some h \<Rightarrow> [(S ''hours'', h)]))\<rparr>,
               st')))))"

text \<open>\<open>app.get('/messages/auto-delete')\<close>\<close>

definition get_auto_delete :: handler where
  "get_auto_delete cfg pf req params st =
     Inr (\<lparr>res_status = 200,
           res_body =
             JObj [(S ''autoDeleteEnabled'', JBool True),
                   (S ''currentSetting'',
                    JStr (number_to_string (AUTO_DELETE_HOURS cfg) 0 @ S '' hours'')),
                   (S ''configurable'', JBool True)]\<rparr>,
          st)"

text \<open>\<open>app.get('/health')\<close> and \<open>app.get('/info')\<close>\<close>

definition get_health :: handler where
  "get_health cfg pf req params st =
     Inr (\<lparr>res_status = 200,
           res_body =
             JObj [(S ''status'', JStr (S ''OK'')),
                   (S ''timestamp'', JStr (toISOString (new_Date pf))),
                   (S ''environment'', JStr (NODE_ENV cfg)),
                   (S ''service'', JStr (S ''backend''))]\<rparr>,
          st)"

definition get_info :: handler where
  "get_info cfg pf req params st =
     Inr (\<lparr>res_status = 200,
           res_body =
             JObj [(S ''service'', JStr (S ''Simple Node.js Demo Backend'')),
                   (S ''version'', JStr (S ''1.0.0'')),
                   (S ''environment'', JStr (NODE_ENV cfg)),
                   (S ''port'', PORT cfg),
                   (S ''dataFile'', JStr (DATA_FILE cfg)),
                   (S ''autoDeleteHours'', JInt (AUTO_DELETE_HOURS cfg)),
                   (S ''corsOrigins'', JArr (map JStr (CORS_ORIGINS cfg)))]\<rparr>,
          st)"

subsection \<open>Routing\<close>

text \<open>
  A route path is a list of segments, each a literal or a named parameter (\<open>:id\<close>), which
  matches any one segment. The router walks the routes in the order in which the source
  registers them and runs the first whose method and path match; the handlers here
  never pass control on.
\<close>

datatype segment = Lit jsstring | Param

fun match_path :: "segment list \<Rightarrow> jsstring list \<Rightarrow> jsstring list option" where
  "match_path [] [] = Some []"
| "match_path (Lit l # ps) (x # xs) = (if x = l then match_path ps xs else None)"
| "match_path (Param # ps) (x # xs) = map_option ((#) x) (match_path ps xs)"
| "match_path ps xs = None"

definition routes :: "(http_method \<times> segment list \<times> handler) list" where
  "routes =
     [(GET, [Lit (S ''messages'')], get_messages),
      (POST, [Lit (S ''messages'')], post_messages),
      (DELETE, [Lit (S ''messages''), Param], delete_message_by_id),
      (DELETE, [Lit (S ''messages'')], delete_all_messages),
      (DELETE, [Lit (S ''messages''), Lit (S ''older-than'')], delete_older_than),
      (POST, [Lit (S ''messages''), Lit (S ''auto-delete'')], post_auto_delete),
      (GET, [Lit (S ''messages''), Lit (S ''auto-delete'')], get_auto_delete),
      (GET, [Lit (S ''health'')], get_health),
      (GET, [Lit (S ''info'')], get_info)]"

fun find_route ::
  "(http_method \<times> segment list \<times> handler) list \<Rightarrow> request \<Rightarrow> (handler \<times> jsstring list) option" where
  "find_route [] req = None"
| "find_route ((m, p, h) # rs) req =
     (if m = req_method req then
        (case match_path p (req_path req) of
           Some params \<Rightarrow> Some (h, params)
         | None \<Rightarrow> find_route rs req)
      else find_route rs req)"

text \<open>The error handler and the 404 handler registered after the routes.\<close>

definition error_handler :: "config \<Rightarrow> platform \<Rightarrow> js_error \<Rightarrow> response" where
  "error_handler cfg pf err =
     \<lparr>res_status = 500,
      res_body =
        JObj [(S ''error'', JStr (S ''Internal server error'')),
              (S ''message'',
               JStr (if NODE_ENV cfg = S ''development'' then error_message pf err
                     else S ''Something went wrong''))]\<rparr>"

definition not_found_handler :: "request \<Rightarrow> response" where
  "not_found_handler req =
     \<lparr>res_status = 404,
      res_body =
        JObj [(S ''error'', JStr (S ''Route not found'')),
              (S ''path'', JStr (req_originalUrl req)),
              (S ''method'', JStr (method_name (req_method req)))]\<rparr>"

text \<open>The whole application on one request: the response sent and the state left.\<close>

definition handle_request :: "config \<Rightarrow> platform \<Rightarrow> request \<Rightarrow> server \<Rightarrow> response \<times> server" where
  "handle_request cfg pf req st =
     (case find_route routes req of
        None \<Rightarrow> (not_found_handler req, st)
      | Some (h, params) \<Rightarrow>
          (case h cfg pf req params st of
             Inl err \<Rightarrow> (error_handler cfg pf err, st)
           | Inr r \<Rightarrow> r))"

text \<open>
  The state after start-up: the data file ensured, the timer started with the default,
  a number, whose conversion does not throw.
\<close>

definition startup :: "config \<Rightarrow> filesystem \<Rightarrow> server" where
  "startup cfg fs0 =
     (let st = \<lparr>fs = ensureDataDirectory fs0, autoDeleteTimer = None\<rparr>
      in case startAutoDeleteTimer (Some (JInt (AUTO_DELETE_HOURS cfg))) st of
           Inl err \<Rightarrow> st
         | Inr st' \<Rightarrow> st')"

section \<open>The client's \<open>escapeHtml\<close>\<close>

text \<open>\<open>s.replace(/c/g, r)\<close> for a single character \<open>c\<close>.\<close>

definition replace_all :: "16 word \<Rightarrow> jsstring \<Rightarrow> jsstring \<Rightarrow> jsstring" where
  "replace_all c r s = concat (map (\<lambda>x. if x = c then r else [x]) s)"

definition escapeHtml :: "jsstring \<Rightarrow> jsstring" where
  "escapeHtml unsafe =
     (if unsafe = [] then []
      else replace_all 0x27 (S ''&#039;'')
             (replace_all 0x22 (S ''&quot;'')
               (replace_all 0x3E (S ''&gt;'')
                 (replace_all 0x3C (S ''&lt;'')
                   (replace_all 0x26 (S ''&amp;'') unsafe)))))"

text \<open>The five entities \<open>escapeHtml\<close> emits, and what it does to one character.\<close>

definition entities :: "jsstring list" where
  "entities = [S ''&amp;'', S ''&lt;'', S ''&gt;'', S ''&quot;'', S ''&#039;'']"

text \<open>Every \<open>&\<close> of a string starts one of the entities.\<close>

fun amps_start_entities :: "jsstring \<Rightarrow> bool" where
  "amps_start_entities [] = True"
| "amps_start_entities (c # cs) =
     ((c = 0x26 \<longrightarrow> (\<exists>e \<in> set entities. take (length e) (c # cs) = e)) \<and> amps_start_entities cs)"

definition escape_char :: "16 word \<Rightarrow> jsstring" where
  "escape_char c =
     (if c = 0x26 then S ''&amp;''
      else if c = 0x3C then S ''&lt;''
      else if c = 0x3E then S ''&gt;''
      else if c = 0x22 then S ''&quot;''
      else if c = 0x27 then S ''&#039;''
      else [c])"

section \<open>Messages\<close>

text \<open>
  A message as the data model describes it, and the object that stands for it in the
  data file and in a response. The file system \<open>holds\<close> a collection when reading the
  messages yields it; a missing or corrupt file holds the empty collection.
\<close>

record message =
  msg_id :: jsstring
  msg_text :: jsstring
  msg_timestamp :: jsstring

definition message_json :: "message \<Rightarrow> json" where
  "message_json m =
     JObj [(S ''id'', JStr (msg_id m)),
           (S ''text'', JStr (msg_text m)),
           (S ''timestamp'', JStr (msg_timestamp m))]"

definition holds :: "filesystem \<Rightarrow> message list \<Rightarrow> bool" where
  "holds files msgs \<longleftrightarrow> readMessages files = Inr (JArr (map message_json msgs))"

section \<open>An example deployment\<close>

text \<open>
  Concrete surroundings for evaluating the server: the configuration of a process started
  with no environment variables set, and a platform whose clock reads \<open>now\<close>, whose
  \<open>Date.parse\<close> is \<open>parse_iso\<close> and whose errors all print as \<open>error\<close>.
\<close>

definition example_config :: config where
  "example_config =
     \<lparr>PORT = JInt 3001,
      DATA_FILE = S ''/app/data/messages.json'',
      NODE_ENV = S ''development'',
      CORS_ORIGINS = [S ''http://localhost:3000''],
      AUTO_DELETE_HOURS = auto_delete_hours_of_env None\<rparr>"

definition example_error_message :: "js_error \<Rightarrow> jsstring" where
  "example_error_message e = S ''error''"

definition example_platform :: "int \<Rightarrow> platform" where
  "example_platform now =
     \<lparr>Date_now = now, new_Date = now, Date_parse = parse_iso,
      error_message = example_error_message\<rparr>"

text \<open>The server started on a file system that holds the given messages.\<close>

definition example_server :: "message list \<Rightarrow> server" where
  "example_server msgs =
     startup example_config
       \<lparr>data_file = Content (JSON_stringify (JArr (map message_json msgs))), writable = True\<rparr>"

text \<open>A request to create a message with the given text.\<close>

definition post_request :: "jsstring \<Rightarrow> request" where
  "post_request text_value =
     \<lparr>req_method = POST, req_path = [S ''messages''], req_originalUrl = S ''/messages'',
      req_body = JObj [(S ''text'', JStr text_value)]\<rparr>"

definition old_message :: message where
  "old_message =
     \<lparr>msg_id = S ''1577836800000'', msg_text = S ''happy new year'',
      msg_timestamp = S ''2020-01-01T00:00:00.000Z''\<rparr>"

section \<open>Reading back what \<open>JSON.stringify\<close> wrote\<close>

subsection \<open>String literals\<close>

lemma hex_val_hex_digit:
  assumes "n < 16"
  shows "hex_val (hex_digit n) = Some n"
proof -
  define k where "k = (if n < 10 then 48 + n else 87 + n)"
  have hd: "hex_digit n = of_nat k" by (simp add: hex_digit_def k_def)
  have "k mod 65536 = k" using assms by (simp add: k_def)
  then have u: "unat (of_nat k :: 16 word) = k" by (simp only: unat_of_nat) simp
  have n: "unat (0x30 :: 16 word) = 48" "unat (0x39 :: 16 word) = 57" "unat (0x61 :: 16 word) = 97"
    "unat (0x66 :: 16 word) = 102" "unat (0x41 :: 16 word) = 65" "unat (0x46 :: 16 word) = 70"
    by simp_all
  show ?thesis unfolding hd hex_val_def word_le_nat_alt u n
    using assms by (simp add: k_def)
qed

lemma hex4_digits_value:
  fixes x :: nat
  shows "((x div 4096 * 16 + x div 256 mod 16) * 16 + x div 16 mod 16) * 16 + x mod 16 = x"
proof -
  have a: "x div 256 = x div 16 div 16" by (simp add: div_mult2_eq)
  have b: "x div 4096 = x div 16 div 16 div 16" by (simp add: div_mult2_eq)
  show ?thesis unfolding a b
    by (simp add: div_mult_mod_eq)
qed

lemma hex4_val_hex4:
  "hex4 c = [h1, h2, h3, h4] \<Longrightarrow> hex4_val h1 h2 h3 h4 = Some c"
proof -
  assume h: "hex4 c = [h1, h2, h3, h4]"
  have lt: "unat c < 65536" using unsigned_less [of c] by simp
  then have d1: "unat c div 4096 < 16" by simp
  have v: "hex_val h1 = Some (unat c div 4096)" "hex_val h2 = Some (unat c div 256 mod 16)"
    "hex_val h3 = Some (unat c div 16 mod 16)" "hex_val h4 = Some (unat c mod 16)"
    using h d1 by (auto simp: hex4_def hex_val_hex_digit)
  have "hex4_val h1 h2 h3 h4 =
      Some (of_nat (((unat c div 4096 * 16 + unat c div 256 mod 16) * 16 + unat c div 16 mod 16) * 16
              + unat c mod 16))"
    unfolding hex4_val_def v by (simp only: prod.case option.case)
  also have "\<dots> = Some c"
    by (simp only: hex4_digits_value) simp
  finally show ?thesis .
qed

lemma parse_unicode_escape:
  "parse_string_chars (unicode_escape c @ s) = cons_fst c (parse_string_chars s)"
proof -
  obtain h1 h2 h3 h4 where h: "hex4 c = [h1, h2, h3, h4]" by (simp add: hex4_def)
  show ?thesis
    by (simp add: unicode_escape_def h hex4_val_hex4 [OF h])
qed

lemma surrogate_plain:
  "is_high_surrogate c \<or> is_low_surrogate c \<Longrightarrow> c \<noteq> 0x22 \<and> c \<noteq> 0x5C \<and> \<not> c < 0x20"
  by (auto simp: is_high_surrogate_def is_low_surrogate_def word_le_nat_alt word_less_nat_alt)

lemma parse_short_escape:
  "simple_escape e = Some u \<Longrightarrow> e \<noteq> 0x75 \<Longrightarrow>
   parse_string_chars (0x5C # e # s) = cons_fst u (parse_string_chars s)"
  by simp

lemma parse_plain_char:
  "c \<noteq> 0x22 \<Longrightarrow> c \<noteq> 0x5C \<Longrightarrow> \<not> c < 0x20 \<Longrightarrow>
   parse_string_chars (c # s) = cons_fst c (parse_string_chars s)"
  by simp

lemma parse_quote_chars:
  "parse_string_chars (quote_chars s @ 0x22 # rest) = Some (s, rest)"
proof (induction s rule: length_induct)
  case (1 s)
  then have IH: "\<And>ys. length ys < length s \<Longrightarrow>
      parse_string_chars (quote_chars ys @ 0x22 # rest) = Some (ys, rest)" by blast
  show ?case
  proof (cases s)
    case Nil
    then show ?thesis by simp
  next
    case (Cons c cs)
    have tl: "parse_string_chars (quote_chars cs @ 0x22 # rest) = Some (cs, rest)"
      using IH [of cs] Cons by simp
    consider (short) "c = 0x08 \<or> c = 0x09 \<or> c = 0x0A \<or> c = 0x0C \<or> c = 0x0D \<or> c = 0x22 \<or> c = 0x5C"
      | (ctrl) "\<not> (c = 0x08 \<or> c = 0x09 \<or> c = 0x0A \<or> c = 0x0C \<or> c = 0x0D \<or> c = 0x22 \<or> c = 0x5C)" "c < 0x20"
      | (pair) d ds where "is_high_surrogate c" "cs = d # ds" "is_low_surrogate d"
      | (lone_hi) "is_high_surrogate c" "cs = [] \<or> \<not> is_low_surrogate (hd cs)"
      | (lone_lo) "\<not> is_high_surrogate c" "is_low_surrogate c"
      | (plain) "\<not> (c = 0x08 \<or> c = 0x09 \<or> c = 0x0A \<or> c = 0x0C \<or> c = 0x0D \<or> c = 0x22 \<or> c = 0x5C)"
          "\<not> c < 0x20" "\<not> is_high_surrogate c" "\<not> is_low_surrogate c"
      by (cases cs) auto
    then show ?thesis
    proof cases
      case short
      then show ?thesis unfolding Cons
        by (elim disjE) (simp_all add: tl simple_escape_def cons_fst_def)
    next
      case ctrl
      then show ?thesis unfolding Cons
        by (simp add: parse_unicode_escape tl cons_fst_def del: parse_string_chars.simps)
    next
      case pair
      have tl2: "parse_string_chars (quote_chars ds @ 0x22 # rest) = Some (ds, rest)"
        using IH [of ds] Cons pair by simp
      have q: "quote_chars (c # d # ds) = c # d # quote_chars ds"
        using pair surrogate_plain [of c] by auto
      show ?thesis unfolding Cons pair(2) q
        using surrogate_plain [of c] surrogate_plain [of d] pair
        by (simp add: parse_plain_char tl2 cons_fst_def del: parse_string_chars.simps)
    next
      case lone_hi
      have q: "quote_chars (c # cs) = unicode_escape c @ quote_chars cs"
        using lone_hi surrogate_plain [of c] by (cases cs) auto
      show ?thesis unfolding Cons q
        by (simp add: parse_unicode_escape tl cons_fst_def del: parse_string_chars.simps)
    next
      case lone_lo
      have q: "quote_chars (c # cs) = unicode_escape c @ quote_chars cs"
        using lone_lo surrogate_plain [of c] by auto
      show ?thesis unfolding Cons q
        by (simp add: parse_unicode_escape tl cons_fst_def del: parse_string_chars.simps)
    next
      case plain
      have q: "quote_chars (c # cs) = c # quote_chars cs"
        using plain by auto
      show ?thesis unfolding Cons q using plain
        by (simp add: parse_plain_char tl cons_fst_def del: parse_string_chars.simps)
    qed
  qed
qed

subsection \<open>Members and elements\<close>

lemma skip_ws_newline_indent: "skip_ws (0x0A # indent n @ s) = skip_ws s"
  by (simp add: skip_ws_def indent_def is_json_ws_def dropWhile_append)

lemma skip_ws_space: "skip_ws (0x20 # s) = skip_ws s"
  by (simp add: skip_ws_def is_json_ws_def)

lemma skip_ws_quote: "skip_ws (quote k @ s) = quote k @ s"
  by (simp add: skip_ws_def is_json_ws_def quote_def)

lemma skip_ws_char: "\<not> is_json_ws c \<Longrightarrow> skip_ws (c # s) = c # s"
  by (simp add: skip_ws_def)

lemma skip_ws_Nil: "skip_ws [] = []"
  by (simp add: skip_ws_def)

lemma parse_value_string: "parse_value (quote v @ rest) = Some (JStr v, rest)"
  by (subst parse_value.simps) (simp add: quote_def skip_ws_def is_json_ws_def parse_quote_chars)

lemma parse_value_space_string: "parse_value (0x20 # quote v @ rest) = Some (JStr v, rest)"
  by (subst parse_value.simps)
     (simp add: quote_def skip_ws_def is_json_ws_def parse_quote_chars)

lemma parse_member_comma:
  "parse_members acc (0x0A # indent n @ quote k @ S '': '' @ quote v @ 0x2C # rest) =
   parse_members (obj_put acc k (JStr v)) rest"
  apply (subst parse_members.simps)
  apply (simp add: skip_ws_newline_indent skip_ws_quote)
  apply (simp add: quote_def parse_quote_chars S_def skip_ws_char is_json_ws_def)
  apply (simp add: parse_value_space_string [unfolded quote_def, simplified] skip_ws_char is_json_ws_def)
  done

lemma parse_member_last:
  "parse_members acc (0x0A # indent n @ quote k @ S '': '' @ quote v @ 0x0A # indent n' @ 0x7D # rest) =
   Some (obj_put acc k (JStr v), rest)"
  apply (subst parse_members.simps)
  apply (simp add: skip_ws_newline_indent skip_ws_quote)
  apply (simp add: quote_def parse_quote_chars S_def skip_ws_char is_json_ws_def)
  apply (simp add: parse_value_space_string [unfolded quote_def, simplified] skip_ws_char is_json_ws_def
      skip_ws_newline_indent)
  done

subsection \<open>A collection of messages\<close>

lemma enum_order_message:
  "enum_order [(S ''id'', a), (S ''text'', b), (S ''timestamp'', c)] =
   [(S ''id'', a), (S ''text'', b), (S ''timestamp'', c)]"
  by (simp add: enum_order_def is_array_index_def is_digit_def S_def)

lemma ser_message:
  "ser n (message_json m) =
     0x7B # 0x0A # indent (Suc n) @ quote (S ''id'') @ S '': '' @ quote (msg_id m) @
     0x2C # 0x0A # indent (Suc n) @ quote (S ''text'') @ S '': '' @ quote (msg_text m) @
     0x2C # 0x0A # indent (Suc n) @ quote (S ''timestamp'') @ S '': '' @ quote (msg_timestamp m) @
     0x0A # indent n @ [0x7D]"
  by (simp add: message_json_def enum_order_message) (simp add: S_def)

lemma obj_put_message:
  "obj_put (obj_put (obj_put [] (S ''id'') a) (S ''text'') b) (S ''timestamp'') c =
   [(S ''id'', a), (S ''text'', b), (S ''timestamp'', c)]"
  by (simp add: S_def)

lemma parse_members_message:
  "parse_members []
      (0x0A # indent (Suc n) @ quote (S ''id'') @ S '': '' @ quote (msg_id m) @
       0x2C # 0x0A # indent (Suc n) @ quote (S ''text'') @ S '': '' @ quote (msg_text m) @
       0x2C # 0x0A # indent (Suc n) @ quote (S ''timestamp'') @ S '': '' @ quote (msg_timestamp m) @
       0x0A # indent n @ 0x7D # rest) =
     Some ([(S ''id'', JStr (msg_id m)), (S ''text'', JStr (msg_text m)),
            (S ''timestamp'', JStr (msg_timestamp m))], rest)"
  by (simp only: parse_member_comma parse_member_last obj_put_message)

lemma parse_value_message:
  "parse_value (ser n (message_json m) @ rest) = Some (message_json m, rest)"
  apply (subst parse_value.simps)
  apply (simp only: ser_message append_Cons append_Nil append_assoc)
  apply (simp add: skip_ws_char is_json_ws_def skip_ws_newline_indent skip_ws_quote)
  apply (simp add: quote_def [of "S ''id''"])
  apply (simp add: parse_members_message [unfolded quote_def [of "S ''id''"], simplified] message_json_def)
  done

lemma parse_value_skips_indent:
  "parse_value (0x0A # indent n @ s) = parse_value s"
  by (simp add: parse_value.simps [of "0x0A # indent n @ s"] parse_value.simps [of s]
      skip_ws_newline_indent)

lemma parse_element_comma:
  "parse_elements (0x0A # indent 1 @ ser 1 (message_json m) @ 0x2C # rest) =
   cons_fst (message_json m) (parse_elements rest)"
  by (subst parse_elements.simps)
     (simp add: parse_value_skips_indent parse_value_message skip_ws_char is_json_ws_def)

lemma parse_element_last:
  "parse_elements (0x0A # indent 1 @ ser 1 (message_json m) @ 0x0A # indent 0 @ 0x5D # rest) =
   Some ([message_json m], rest)"
  by (subst parse_elements.simps)
     (simp add: parse_value_skips_indent parse_value_message skip_ws_char is_json_ws_def
        skip_ws_newline_indent)

lemma parse_elements_messages:
  "msgs \<noteq> [] \<Longrightarrow>
   parse_elements
     (0x0A # indent 1 @
      intercalate (0x2C # 0x0A # indent 1) (map (ser 1) (map message_json msgs)) @
      0x0A # indent 0 @ 0x5D # rest) =
   Some (map message_json msgs, rest)"
proof (induction msgs rule: induct_list012)
  case 1
  then show ?case by simp
next
  case (2 m)
  show ?case using parse_element_last [of m rest] by simp
next
  case (3 m m' ms)
  have "parse_elements
     (0x0A # indent 1 @
      intercalate (0x2C # 0x0A # indent 1) (map (ser 1) (map message_json (m # m' # ms))) @
      0x0A # indent 0 @ 0x5D # rest) =
    parse_elements (0x0A # indent 1 @ ser 1 (message_json m) @ 0x2C #
      (0x0A # indent 1 @
       intercalate (0x2C # 0x0A # indent 1) (map (ser 1) (map message_json (m' # ms))) @
       0x0A # indent 0 @ 0x5D # rest))"
    by simp
  also have "\<dots> = cons_fst (message_json m) (Some (map message_json (m' # ms), rest))"
    using 3 by (simp only: parse_element_comma) simp
  finally show ?case by (simp add: cons_fst_def)
qed

lemma skip_ws_first_message:
  "skip_ws (0x0A # indent 1 @ ser 1 (message_json m) @ r) = ser 1 (message_json m) @ r"
  by (simp add: skip_ws_newline_indent ser_message skip_ws_char is_json_ws_def)

lemma parse_value_messages:
  "parse_value (ser 0 (JArr (map message_json msgs)) @ rest) = Some (JArr (map message_json msgs), rest)"
proof (cases msgs)
  case Nil
  then show ?thesis
    by (subst parse_value.simps) (simp add: S_def skip_ws_char is_json_ws_def)
next
  case (Cons m ms)
  have ne: "msgs \<noteq> []" using Cons by simp
  obtain r where r: "intercalate (0x2C # 0x0A # indent 1) (map (ser 1) (map message_json msgs)) =
      ser 1 (message_json m) @ r"
    by (cases ms) (auto simp: Cons)
  have t: "skip_ws (0x0A # indent 1 @
      intercalate (0x2C # 0x0A # indent 1) (map (ser 1) (map message_json msgs)) @
      0x0A # indent 0 @ 0x5D # rest) = 0x7B # tl (ser 1 (message_json m)) @ r @ 0x0A # indent 0 @ 0x5D # rest"
    unfolding r using skip_ws_first_message [of m "r @ 0x0A # indent 0 @ 0x5D # rest"]
    by (simp add: ser_message)
  show ?thesis
    apply (subst parse_value.simps)
    using ne apply (simp add: S_def skip_ws_char is_json_ws_def)
    apply (simp add: t [simplified] parse_elements_messages [OF ne, simplified])
    done
qed

lemma JSON_roundtrip_messages:
  "JSON_parse (JSON_stringify (JArr (map message_json msgs))) = Inr (JArr (map message_json msgs))"
  using parse_value_messages [of msgs "[]"]
  by (simp add: JSON_parse_def JSON_stringify_def skip_ws_Nil)

section \<open>The store: reading and writing\<close>

lemma writeMessages_result:
  "writeMessages v files =
     Inr (if writable files \<and> data_file files \<noteq> Inaccessible
          then (True, files\<lparr>data_file := Content (JSON_stringify v)\<rparr>)
          else (False, files))"
  by (simp add: writeMessages_def writeFileSync_def try_catch_def bind_def)

lemma readMessages_result:
  "readMessages files =
     Inr (case data_file files of
            Missing \<Rightarrow> JArr []
          | Inaccessible \<Rightarrow> JArr []
          | Content d \<Rightarrow> (case JSON_parse d of Inl e \<Rightarrow> JArr [] | Inr v \<Rightarrow> v))"
  by (simp add: readMessages_def readFileSync_def try_catch_def bind_def
      split: file_state.splits sum.splits)

lemma holds_after_write:
  "holds (files\<lparr>data_file := Content (JSON_stringify (JArr (map message_json msgs)))\<rparr>) msgs"
  by (simp add: holds_def readMessages_result JSON_roundtrip_messages)

text \<open>
  C7. Round trip: when \<open>writeMessages\<close> has saved a sequence of messages and returned
  true, \<open>readMessages\<close> on the file system it left returns the same sequence, in the
  same order.
\<close>

theorem write_then_read_roundtrip:
  assumes "writeMessages (JArr (map message_json msgs)) files = Inr (True, files')"
  shows "readMessages files' = Inr (JArr (map message_json msgs))"
proof -
  have "files' = files\<lparr>data_file := Content (JSON_stringify (JArr (map message_json msgs)))\<rparr>"
    using assms by (simp add: writeMessages_result split: if_splits)
  then show ?thesis
    using holds_after_write [where files = files and msgs = msgs] by (simp add: holds_def)
qed

theorem write_then_read_roundtrip_witness:
  "writeMessages
     (JArr (map message_json
        [\<lparr>msg_id = S ''1700000000000'', msg_text = S ''hello'',
          msg_timestamp = S ''2023-11-14T22:13:20.000Z''\<rparr>]))
     \<lparr>data_file = Missing, writable = True\<rparr> =
   Inr (True,
     \<lparr>data_file = Content (JSON_stringify (JArr (map message_json
        [\<lparr>msg_id = S ''1700000000000'', msg_text = S ''hello'',
          msg_timestamp = S ''2023-11-14T22:13:20.000Z''\<rparr>]))),
      writable = True\<rparr>) \<and>
   readMessages
     \<lparr>data_file = Content (JSON_stringify (JArr (map message_json
        [\<lparr>msg_id = S ''1700000000000'', msg_text = S ''hello'',
          msg_timestamp = S ''2023-11-14T22:13:20.000Z''\<rparr>]))),
      writable = True\<rparr> =
   Inr (JArr (map message_json
        [\<lparr>msg_id = S ''1700000000000'', msg_text = S ''hello'',
          msg_timestamp = S ''2023-11-14T22:13:20.000Z''\<rparr>]))"
proof -
  let ?msgs = "[\<lparr>msg_id = S ''1700000000000'', msg_text = S ''hello'',
          msg_timestamp = S ''2023-11-14T22:13:20.000Z''\<rparr>]"
  have w: "writeMessages (JArr (map message_json ?msgs)) \<lparr>data_file = Missing, writable = True\<rparr> =
      Inr (True, \<lparr>data_file = Content (JSON_stringify (JArr (map message_json ?msgs))),
                  writable = True\<rparr>)"
    by (simp add: writeMessages_result)
  show ?thesis
    using w write_then_read_roundtrip [OF w] by simp
qed

text \<open>
  C8. \<open>readMessages\<close> is fail-soft: it always returns a value and never raises. When the
  file is missing or cannot be read, or its content does not parse as JSON, the value is
  the empty array; when the content parses, it is the parsed value.
\<close>

theorem readMessages_fail_soft:
  "readMessages files =
     Inr (case data_file files of
            Missing \<Rightarrow> JArr []
          | Inaccessible \<Rightarrow> JArr []
          | Content d \<Rightarrow> (case JSON_parse d of Inl e \<Rightarrow> JArr [] | Inr v \<Rightarrow> v))"
  by (rule readMessages_result)

lemma JSON_parse_corrupt_example: "JSON_parse (S ''{oops'') = Inl SyntaxError"
  by code_simp

theorem readMessages_fail_soft_witness:
  "readMessages \<lparr>data_file = Content (S ''{oops''), writable = True\<rparr> = Inr (JArr []) \<and>
   readMessages \<lparr>data_file = Missing, writable = True\<rparr> = Inr (JArr []) \<and>
   readMessages \<lparr>data_file = Inaccessible, writable = True\<rparr> = Inr (JArr []) \<and>
   readMessages \<lparr>data_file = Content (S ''[]''), writable = False\<rparr> = Inr (JArr [])"
proof -
  have e: "JSON_parse (S ''[]'') = Inr (JArr [])" by code_simp
  show ?thesis
    by (simp add: readMessages_fail_soft JSON_parse_corrupt_example e)
qed

section \<open>Routing facts\<close>

lemma find_get_messages:
  "req_method req = GET \<Longrightarrow> req_path req = [S ''messages''] \<Longrightarrow>
   find_route routes req = Some (get_messages, [])"
  by (simp add: routes_def)

lemma find_post_messages:
  "req_method req = POST \<Longrightarrow> req_path req = [S ''messages''] \<Longrightarrow>
   find_route routes req = Some (post_messages, [])"
  by (simp add: routes_def)

lemma find_delete_by_id:
  "req_method req = DELETE \<Longrightarrow> req_path req = [S ''messages'', x] \<Longrightarrow>
   find_route routes req = Some (delete_message_by_id, [x])"
  by (simp add: routes_def)

lemma find_post_auto_delete:
  "req_method req = POST \<Longrightarrow> req_path req = [S ''messages'', S ''auto-delete''] \<Longrightarrow>
   find_route routes req = Some (post_auto_delete, [])"
  by (simp add: routes_def S_def)

lemma find_get_auto_delete:
  "req_method req = GET \<Longrightarrow> req_path req = [S ''messages'', S ''auto-delete''] \<Longrightarrow>
   find_route routes req = Some (get_auto_delete, [])"
  by (simp add: routes_def S_def)

section \<open>Creating a message: rejected texts\<close>

text \<open>
  C6. POST /messages with a \<open>text\<close> that is missing (or otherwise falsy: \<open>null\<close>, the
  empty string) or a string that is empty after trimming answers 400 with the body
  \<open>{error: "Message text is required"}\<close> and leaves the server state, the data file
  included, as it was: nothing is written.
\<close>

theorem post_messages_rejects_blank_text:
  assumes "req_method req = POST" and "req_path req = [S ''messages'']"
    and "\<not> truthy (get_prop (req_body req) (S ''text'')) \<or>
         (\<exists>s. get_prop (req_body req) (S ''text'') = Some (JStr s) \<and> trim s = [])"
  shows "handle_request cfg pf req st =
           (\<lparr>res_status = 400,
             res_body = JObj [(S ''error'', JStr (S ''Message text is required''))]\<rparr>, st)"
  using assms
  by (auto simp: handle_request_def find_post_messages post_messages_def error_body_def
        call_trim_def bind_def)

theorem post_messages_rejects_blank_text_witness:
  "\<forall>cfg pf st.
     handle_request cfg pf
       \<lparr>req_method = POST, req_path = [S ''messages''], req_originalUrl = S ''/messages'',
        req_body = JObj [(S ''text'', JStr (S ''   ''))]\<rparr> st =
     (\<lparr>res_status = 400,
       res_body = JObj [(S ''error'', JStr (S ''Message text is required''))]\<rparr>, st)"
proof (intro allI)
  fix cfg pf st
  show "handle_request cfg pf
       \<lparr>req_method = POST, req_path = [S ''messages''], req_originalUrl = S ''/messages'',
        req_body = JObj [(S ''text'', JStr (S ''   ''))]\<rparr> st =
     (\<lparr>res_status = 400,
       res_body = JObj [(S ''error'', JStr (S ''Message text is required''))]\<rparr>, st)"
    using post_messages_rejects_blank_text
      [of "\<lparr>req_method = POST, req_path = [S ''messages''], req_originalUrl = S ''/messages'',
            req_body = JObj [(S ''text'', JStr (S ''   ''))]\<rparr>" cfg pf st]
    by (simp add: trim_def is_js_space_def S_def)
qed

section \<open>Escaping message text\<close>

lemma replace_all_concat:
  "replace_all c r (concat xss) = concat (map (replace_all c r) xss)"
  by (induction xss) (simp_all add: replace_all_def)

lemma replace_all_concat_map:
  "replace_all c r (concat (map f s)) = concat (map (\<lambda>x. replace_all c r (f x)) s)"
  by (simp add: replace_all_concat comp_def)

lemma replace_all_as_concat: "replace_all c r s = concat (map (\<lambda>x. if x = c then r else [x]) s)"
  by (simp add: replace_all_def)

lemma escape_char_chain:
  "replace_all 0x27 (S ''&#039;'')
     (replace_all 0x22 (S ''&quot;'')
       (replace_all 0x3E (S ''&gt;'')
         (replace_all 0x3C (S ''&lt;'')
           (if x = 0x26 then S ''&amp;'' else [x])))) = escape_char x"
  by (simp add: escape_char_def replace_all_def S_def)

lemma escapeHtml_concat: "escapeHtml s = concat (map escape_char s)"
proof -
  have "replace_all 0x27 (S ''&#039;'')
     (replace_all 0x22 (S ''&quot;'')
       (replace_all 0x3E (S ''&gt;'')
         (replace_all 0x3C (S ''&lt;'')
           (replace_all 0x26 (S ''&amp;'') s)))) = concat (map escape_char s)"
    unfolding replace_all_as_concat [of "0x26"] replace_all_concat_map
    by (simp only: escape_char_chain)
  then show ?thesis by (simp add: escapeHtml_def)
qed

lemma escape_char_no_markup:
  "0x3C \<notin> set (escape_char c) \<and> 0x3E \<notin> set (escape_char c) \<and>
   0x22 \<notin> set (escape_char c) \<and> 0x27 \<notin> set (escape_char c)"
  by (simp add: escape_char_def S_def)

lemma escape_char_amps:
  "amps_start_entities rest \<Longrightarrow> amps_start_entities (escape_char c @ rest)"
  by (simp add: escape_char_def S_def entities_def)

lemma amps_escaped: "amps_start_entities (concat (map escape_char s))"
  by (induction s) (simp_all add: escape_char_amps)

lemma amps_start_entities_nth:
  "amps_start_entities xs \<Longrightarrow> i < length xs \<Longrightarrow> xs ! i = 0x26 \<Longrightarrow>
   \<exists>e \<in> set entities. take (length e) (drop i xs) = e"
proof (induction xs arbitrary: i)
  case Nil
  then show ?case by simp
next
  case (Cons c cs)
  show ?case
  proof (cases i)
    case 0
    then show ?thesis using Cons.prems by simp
  next
    case (Suc j)
    then show ?thesis using Cons.prems Cons.IH [of j] by simp
  qed
qed

text \<open>
  C9. For every input string, the output of \<open>escapeHtml\<close> contains none of the raw
  characters \<open><\<close>, \<open>>\<close>, \<open>"\<close> and \<open>'\<close>, and every \<open>&\<close> in it is the first
  character of one of the five entities the function emits.
\<close>

theorem escapeHtml_safe:
  "0x3C \<notin> set (escapeHtml s) \<and> 0x3E \<notin> set (escapeHtml s) \<and>
   0x22 \<notin> set (escapeHtml s) \<and> 0x27 \<notin> set (escapeHtml s) \<and>
   (\<forall>i < length (escapeHtml s). escapeHtml s ! i = 0x26 \<longrightarrow>
      (\<exists>e \<in> set entities. take (length e) (drop i (escapeHtml s)) = e))"
  using escape_char_no_markup amps_escaped [of s] amps_start_entities_nth [of "escapeHtml s"]
  by (auto simp: escapeHtml_concat)

theorem escapeHtml_safe_witness:
  "escapeHtml (S ''<b>Tom & Jerry</b>'') = S ''&lt;b&gt;Tom &amp; Jerry&lt;/b&gt;'' \<and>
   0 < length (escapeHtml (S ''<b>Tom & Jerry</b>'')) \<and>
   escapeHtml (S ''<b>Tom & Jerry</b>'') ! 0 = 0x26 \<and>
   (\<exists>e \<in> set entities. take (length e) (drop 0 (escapeHtml (S ''<b>Tom & Jerry</b>''))) = e) \<and>
   0x3C \<notin> set (escapeHtml (S ''<b>Tom & Jerry</b>''))"
proof -
  have v: "escapeHtml (S ''<b>Tom & Jerry</b>'') = S ''&lt;b&gt;Tom &amp; Jerry&lt;/b&gt;''"
    by code_simp
  have z: "0 < length (escapeHtml (S ''<b>Tom & Jerry</b>''))"
    "escapeHtml (S ''<b>Tom & Jerry</b>'') ! 0 = 0x26"
    unfolding v by (simp_all add: S_def)
  show ?thesis
    using v z escapeHtml_safe [of "S ''<b>Tom & Jerry</b>''"] by blast
qed

section \<open>Rounding to a double\<close>

lemma scale2_powi: "scale2 x e = x * 2 powi e"
  by (simp add: scale2_def power_int_def power_divide inverse_eq_divide)

lemma bit_length_pos: "0 < n \<Longrightarrow> 1 \<le> bit_length n"
proof (induction n rule: bit_length.induct)
  case (1 n)
  have "0 \<le> bit_length (n div 2)"
  proof (cases "0 < n div 2")
    case True
    then show ?thesis using 1 by simp
  next
    case False
    then show ?thesis by (simp add: bit_length.simps [of "n div 2"])
  qed
  then show ?case using 1(2) by (simp add: bit_length.simps [of n])
qed

lemma bit_length_bounds:
  "0 < n \<Longrightarrow> 2 ^ nat (bit_length n - 1) \<le> n \<and> n < 2 ^ nat (bit_length n)"
proof (induction n rule: bit_length.induct)
  case (1 n)
  show ?case
  proof (cases "0 < n div 2")
    case False
    then have n: "n = 1" using 1(2) by linarith
    show ?thesis unfolding n by (simp add: bit_length.simps [of 1] bit_length.simps [of 0])
  next
    case True
    then have ih: "2 ^ nat (bit_length (n div 2) - 1) \<le> n div 2" "n div 2 < 2 ^ nat (bit_length (n div 2))"
      using 1 by simp_all
    have b: "bit_length n = 1 + bit_length (n div 2)" using 1(2) by (simp add: bit_length.simps [of n])
    have p: "1 \<le> bit_length (n div 2)" using True by (rule bit_length_pos)
    have e1: "nat (bit_length n - 1) = Suc (nat (bit_length (n div 2) - 1))" using b p by simp
    have e2: "nat (bit_length n) = Suc (nat (bit_length (n div 2)))" using b p by simp
    show ?thesis unfolding e1 e2 using ih by simp linarith
  qed
qed

lemma round_half_even_nonneg: "0 \<le> x \<Longrightarrow> 0 \<le> round_half_even x"
  by (simp add: round_half_even_def Let_def)

lemma round_half_even_zero: "0 \<le> x \<Longrightarrow> round_half_even x = 0 \<longleftrightarrow> x \<le> 1 / 2"
proof -
  assume x: "0 \<le> x"
  have f: "0 \<le> \<lfloor>x\<rfloor>" using x by simp
  show ?thesis
  proof (cases "\<lfloor>x\<rfloor> = 0")
    case True
    then show ?thesis by (auto simp: round_half_even_def Let_def)
  next
    case False
    then have "1 \<le> \<lfloor>x\<rfloor>" using f by linarith
    then have "1 \<le> x" by linarith
    moreover have "round_half_even x \<noteq> 0"
    proof -
      define g where "g = \<lfloor>x\<rfloor>"
      have "1 \<le> g" using \<open>1 \<le> \<lfloor>x\<rfloor>\<close> by (simp only: g_def)
      moreover have "round_half_even x = g \<or> round_half_even x = g + 1"
        unfolding round_half_even_def Let_def g_def [symmetric] by simp
      ultimately show ?thesis by linarith
    qed
    ultimately show ?thesis by simp
  qed
qed



lemma binary_exponent_lower:
  assumes "0 < a"
  shows "2 powi (binary_exponent a - 1) < a"
proof -
  obtain p q where pq: "quotient_of a = (p, q)" by (cases "quotient_of a")
  have q: "0 < q" using quotient_of_denom_pos [OF pq] .
  have a: "a = of_int p / of_int q" using quotient_of_div [OF pq] .
  have p: "0 < p" using assms q unfolding a by (simp add: zero_less_divide_iff)
  define k where "k = bit_length p - bit_length q"
  have bp: "1 \<le> bit_length p" "1 \<le> bit_length q" using p q by (simp_all add: bit_length_pos)
  have "(2::int) ^ nat (bit_length p - 1) \<le> p" using bit_length_bounds [OF p] by simp
  then have "(of_int (2 ^ nat (bit_length p - 1)) :: rat) \<le> of_int p" by (simp only: of_int_le_iff)
  then have lo: "(2::rat) powi (bit_length p - 1) \<le> of_int p" using bp by (simp add: power_int_def)
  have "q < 2 ^ nat (bit_length q)" using bit_length_bounds [OF q] by simp
  then have "(of_int q :: rat) < of_int (2 ^ nat (bit_length q))" by (simp only: of_int_less_iff)
  then have hi: "(of_int q :: rat) < 2 powi (bit_length q)" using bp by (simp add: power_int_def)
  have "(2::rat) powi (k - 1) = 2 powi (bit_length p - 1) / 2 powi (bit_length q)"
    unfolding k_def by (simp add: power_int_diff)
  also have "\<dots> < 2 powi (bit_length p - 1) / of_int q"
    using hi q by (intro divide_strict_left_mono) (simp_all add: mult_pos_pos)
  also have "\<dots> \<le> of_int p / of_int q"
    using lo q by (intro divide_right_mono) simp_all
  finally have k: "(2::rat) powi (k - 1) < a" unfolding a .
  have "binary_exponent a = k \<or> binary_exponent a = k - 1"
    by (simp add: binary_exponent_def pq k_def Let_def)
  moreover have "(2::rat) powi (k - 1 - 1) \<le> 2 powi (k - 1)"
    by (rule power_int_increasing) simp_all
  ultimately show ?thesis using k by auto
qed



lemma round_double_cases:
  assumes "x \<noteq> 0"
  obtains v where "0 \<le> v" and "v = 0 \<longleftrightarrow> \<bar>x\<bar> \<le> 1 / 2 ^ 1075"
    and "round_double x =
           (if scale2 1 1024 \<le> v then (if x < 0 then NegInf else PosInf)
            else Fin (if x < 0 then - v else v))"
proof -
  define a where "a = \<bar>x\<bar>"
  define e where "e = max (binary_exponent a) (- 1022) - 52"
  define n where "n = scale2 a (- e)"
  define v where "v = scale2 (of_int (round_half_even n)) e"
  have a: "0 < a" using assms by (simp add: a_def)
  have pe: "(0::rat) < 2 powi e" "(0::rat) < 2 powi (- e)" by simp_all
  have n: "n = a * 2 powi (- e)" by (simp add: n_def scale2_powi)
  have n0: "0 \<le> n" unfolding n using a pe by simp
  have v: "v = of_int (round_half_even n) * 2 powi e" by (simp add: v_def scale2_powi)
  have v0: "0 \<le> v" unfolding v using round_half_even_nonneg [OF n0] by simp
  have "v = 0 \<longleftrightarrow> round_half_even n = 0" unfolding v by simp
  also have "\<dots> \<longleftrightarrow> n \<le> 1 / 2" by (rule round_half_even_zero [OF n0])
  also have "\<dots> \<longleftrightarrow> a \<le> 2 powi (e - 1)"
  proof -
    have h: "2 powi (e - 1) = (1 / 2) * (2::rat) powi e" by (simp add: power_int_diff)
    have m: "a = n * 2 powi e" unfolding n by (simp add: power_int_minus)
    have "n \<le> 1 / 2 \<longleftrightarrow> n * 2 powi e \<le> (1 / 2) * 2 powi e"
      using pe(1) by (simp only: mult_le_cancel_right_pos)
    then show ?thesis unfolding h m .
  qed
  also have "\<dots> \<longleftrightarrow> a \<le> 1 / 2 ^ 1075"
  proof -
    define t :: rat where "t = 1 / 2 ^ 1075"
    have t: "(2::rat) powi (- 1075) = t"
      unfolding t_def by (simp only: power_int_def power_divide inverse_eq_divide) simp
    have "a \<le> 2 powi (e - 1) \<longleftrightarrow> a \<le> t"
    proof (cases "binary_exponent a \<le> - 1022")
      case True
      then have "e - 1 = - 1075" by (simp add: e_def)
      then show ?thesis by (simp only: t)
    next
      case False
      then have e: "e = binary_exponent a - 52" by (simp add: e_def)
      have low: "2 powi (binary_exponent a - 1) < a" using a by (rule binary_exponent_lower)
      have "(2::rat) powi (e - 1) \<le> 2 powi (binary_exponent a - 1)"
        unfolding e by (rule power_int_increasing) simp_all
      then have 1: "\<not> a \<le> 2 powi (e - 1)" using low by linarith
      have "(2::rat) powi (- 1075) \<le> 2 powi (binary_exponent a - 1)"
        using False by (intro power_int_increasing) simp_all
      then have 2: "\<not> a \<le> t" using low unfolding t by linarith
      show ?thesis using 1 2 by blast
    qed
    then show ?thesis unfolding t_def .
  qed
  finally have z: "v = 0 \<longleftrightarrow> \<bar>x\<bar> \<le> 1 / 2 ^ 1075" unfolding a_def .
  have r: "round_double x =
           (if scale2 1 1024 \<le> v then (if x < 0 then NegInf else PosInf)
            else Fin (if x < 0 then - v else v))"
    using assms unfolding round_double_def Let_def v_def n_def e_def a_def by simp
  show thesis using that [OF v0 z r] .
qed

lemma round_double_zero: "round_double x = Fin 0 \<longleftrightarrow> \<bar>x\<bar> \<le> 1 / 2 ^ 1075"
proof (cases "x = 0")
  case True
  then show ?thesis by (simp add: round_double_def)
next
  case False
  obtain v where v: "0 \<le> v" "v = 0 \<longleftrightarrow> \<bar>x\<bar> \<le> 1 / 2 ^ 1075"
    and r: "round_double x =
           (if scale2 1 1024 \<le> v then (if x < 0 then NegInf else PosInf)
            else Fin (if x < 0 then - v else v))"
    using round_double_cases [OF False] by blast
  have big: "(0::rat) < scale2 1 1024" by (simp add: scale2_def)
  show ?thesis unfolding r using v big by (auto split: if_splits)
qed

lemma round_double_negative: "negative (round_double x) \<longleftrightarrow> x < - (1 / 2 ^ 1075)"
proof (cases "x = 0")
  case True
  then show ?thesis by (simp add: round_double_def negative_def)
next
  case False
  obtain v where v: "0 \<le> v" "v = 0 \<longleftrightarrow> \<bar>x\<bar> \<le> 1 / 2 ^ 1075"
    and r: "round_double x =
           (if scale2 1 1024 \<le> v then (if x < 0 then NegInf else PosInf)
            else Fin (if x < 0 then - v else v))"
    using round_double_cases [OF False] by blast
  have big: "(0::rat) < scale2 1 1024" by (simp add: scale2_def)
  show ?thesis
  proof (cases "x < 0")
    case True
    then have "negative (round_double x) \<longleftrightarrow> v \<noteq> 0"
      unfolding r using v(1) big by (auto simp: negative_def)
    then show ?thesis using v(2) True by auto
  next
    case False
    then have "\<not> negative (round_double x)" unfolding r using v(1) by (auto simp: negative_def)
    moreover have "\<not> x < - (1 / 2 ^ 1075)" using False by (simp add: order.strict_trans2 [of _ 0] not_less)
    ultimately show ?thesis by simp
  qed
qed

lemma round_double_not_NaN: "round_double x \<noteq> NaN"
  by (simp add: round_double_def Let_def)



lemma binary_exponent_bounds:
  assumes "0 < a"
  shows "2 powi (binary_exponent a) \<le> a \<and> a < 2 powi (binary_exponent a + 1)"
proof -
  obtain p q where pq: "quotient_of a = (p, q)" by (cases "quotient_of a")
  have q: "0 < q" using quotient_of_denom_pos [OF pq] .
  have a: "a = of_int p / of_int q" using quotient_of_div [OF pq] .
  have p: "0 < p" using assms q unfolding a by (simp add: zero_less_divide_iff)
  define k where "k = bit_length p - bit_length q"
  have bp: "1 \<le> bit_length p" "1 \<le> bit_length q" using p q by (simp_all add: bit_length_pos)
  have "(2::int) ^ nat (bit_length p - 1) \<le> p" using bit_length_bounds [OF p] by simp
  then have "(of_int (2 ^ nat (bit_length p - 1)) :: rat) \<le> of_int p" by (simp only: of_int_le_iff)
  then have plo: "(2::rat) powi (bit_length p - 1) \<le> of_int p" using bp by (simp add: power_int_def)
  have "p < 2 ^ nat (bit_length p)" using bit_length_bounds [OF p] by simp
  then have "(of_int p :: rat) < of_int (2 ^ nat (bit_length p))" by (simp only: of_int_less_iff)
  then have phi: "(of_int p :: rat) < 2 powi (bit_length p)" using bp by (simp add: power_int_def)
  have "(2::int) ^ nat (bit_length q - 1) \<le> q" using bit_length_bounds [OF q] by simp
  then have "(of_int (2 ^ nat (bit_length q - 1)) :: rat) \<le> of_int q" by (simp only: of_int_le_iff)
  then have qlo: "(2::rat) powi (bit_length q - 1) \<le> of_int q" using bp by (simp add: power_int_def)
  have "q < 2 ^ nat (bit_length q)" using bit_length_bounds [OF q] by simp
  then have "(of_int q :: rat) < of_int (2 ^ nat (bit_length q))" by (simp only: of_int_less_iff)
  then have qhi: "(of_int q :: rat) < 2 powi (bit_length q)" using bp by (simp add: power_int_def)
  have "(2::rat) powi (k - 1) = 2 powi (bit_length p - 1) / 2 powi (bit_length q)"
    unfolding k_def by (simp add: power_int_diff)
  also have "\<dots> < 2 powi (bit_length p - 1) / of_int q"
    using qhi q by (intro divide_strict_left_mono) (simp_all add: mult_pos_pos)
  also have "\<dots> \<le> of_int p / of_int q"
    using plo q by (intro divide_right_mono) simp_all
  finally have lower: "(2::rat) powi (k - 1) < a" unfolding a .
  have "of_int p / of_int q < (2::rat) powi (bit_length p) / of_int q"
    using phi q by (intro divide_strict_right_mono) simp_all
  also have "\<dots> \<le> 2 powi (bit_length p) / 2 powi (bit_length q - 1)"
    using qlo q by (intro divide_left_mono) (simp_all add: mult_pos_pos)
  also have "\<dots> = 2 powi (k + 1)"
    unfolding k_def by (simp add: power_int_diff [symmetric] algebra_simps)
  finally have upper: "a < 2 powi (k + 1)" unfolding a .
  show ?thesis
  proof (cases "scale2 1 k \<le> a")
    case True
    then have "binary_exponent a = k" by (simp add: binary_exponent_def pq k_def Let_def)
    then show ?thesis using True upper by (simp add: scale2_powi)
  next
    case False
    then have "binary_exponent a = k - 1" by (simp add: binary_exponent_def pq k_def Let_def)
    then show ?thesis using False lower by (simp add: scale2_powi)
  qed
qed

lemma round_half_even_of_int: "round_half_even (of_int z) = z"
  by (simp add: round_half_even_def)

lemma round_double_int:
  assumes "\<bar>n\<bar> \<le> 2 ^ 53"
  shows "round_double (of_int n) = Fin (of_int n)"
proof (cases "n = 0")
  case True
  then show ?thesis by (simp add: round_double_def)
next
  case False
  define a :: rat where "a = \<bar>of_int n\<bar>"
  define b where "b = binary_exponent a"
  have a1: "1 \<le> a"
  proof -
    have "1 \<le> \<bar>n\<bar>" using False by linarith
    then have "(of_int 1 :: rat) \<le> of_int \<bar>n\<bar>" by (simp only: of_int_le_iff)
    then show ?thesis by (simp add: a_def)
  qed
  have a53: "a \<le> 2 ^ 53"
  proof -
    have "(of_int \<bar>n\<bar> :: rat) \<le> of_int (2 ^ 53)" using assms by (simp only: of_int_le_iff)
    then show ?thesis by (simp add: a_def)
  qed
  have bounds: "2 powi b \<le> a" "a < 2 powi (b + 1)"
    using binary_exponent_bounds [of a] a1 by (simp_all add: b_def)
  have b0: "0 \<le> b"
  proof (rule ccontr)
    assume "\<not> 0 \<le> b"
    then have "(2::rat) powi (b + 1) \<le> 2 powi 0" by (intro power_int_increasing) simp_all
    then show False using bounds(2) a1 by simp
  qed
  have b53: "b \<le> 53"
  proof (rule ccontr)
    assume "\<not> b \<le> 53"
    then have "(2::rat) powi 54 \<le> 2 powi b" by (intro power_int_increasing) simp_all
    moreover have "(2::rat) ^ 53 < 2 powi 54" by (simp add: power_int_def)
    ultimately show False using bounds(1) a53 by linarith
  qed
  define e where "e = b - 52"
  have e: "max (binary_exponent a) (- 1022) - 52 = e" using b0 by (simp add: e_def b_def)
  have "\<exists>z. scale2 a (- e) = of_int z"
  proof (cases "b = 53")
    case True
    have "(2::rat) powi 53 = 2 ^ 53" by (simp add: power_int_def)
    then have "a = 2 ^ 53" using bounds(1) a53 True by simp
    then have "scale2 a (- e) = of_int (2 ^ 52)" using True by (simp add: e_def scale2_def)
    then show ?thesis by blast
  next
    case False
    then have le: "e \<le> 0" using b53 by (simp add: e_def)
    have "a = of_int \<bar>n\<bar>" by (simp add: a_def)
    then have "scale2 a (- e) = of_int (\<bar>n\<bar> * 2 ^ nat (- e))" using le by (simp add: scale2_def)
    then show ?thesis by blast
  qed
  then obtain z where z: "scale2 a (- e) = of_int z" by blast
  have v: "scale2 (of_int (round_half_even (scale2 a (- e)))) e = a"
  proof -
    have "scale2 (of_int (round_half_even (scale2 a (- e)))) e = scale2 (scale2 a (- e)) e"
      unfolding z round_half_even_of_int ..
    also have "\<dots> = a" by (simp add: scale2_powi power_int_minus)
    finally show ?thesis .
  qed
  have big: "\<not> scale2 1 1024 \<le> a"
  proof -
    have "(2::rat) ^ 53 < 2 ^ 1024" by (rule power_strict_increasing) simp_all
    then show ?thesis using a53 by (simp add: scale2_def)
  qed
  have x: "of_int n \<noteq> (0::rat)" using False by simp
  have "round_double (of_int n) = Fin (if (of_int n :: rat) < 0 then - a else a)"
    using x big unfolding round_double_def Let_def a_def [symmetric] e v by simp
  also have "\<dots> = Fin (of_int n)" by (simp add: a_def)
  finally show ?thesis .
qed

lemma round_double_numeral:
  "numeral k \<le> (9007199254740992::int) \<Longrightarrow> round_double (numeral k) = Fin (numeral k)"
  using round_double_int [of "numeral k"] by simp

lemma round_double_1: "round_double 1 = Fin 1"
  using round_double_int [of 1] by simp

lemma scale10_0: "scale10 x 0 = x"
  by (simp add: scale10_def)

lemma num_value_int: "\<bar>n\<bar> \<le> 2 ^ 53 \<Longrightarrow> num_value n 0 = Fin (of_int n)"
  by (simp add: num_value_def scale10_0 round_double_int)

section \<open>The example deployment, evaluated\<close>

lemma JInt_number: "\<exists>m e. JInt n = JNum m e"
  by (simp add: JInt_def mk_num_def split: prod.split)

lemma startup_fs: "fs (startup cfg fs0) = ensureDataDirectory fs0"
proof -
  obtain m e where "JInt (AUTO_DELETE_HOURS cfg) = JNum m e" using JInt_number by blast
  then show ?thesis
    by (simp add: startup_def startAutoDeleteTimer_def hours_to_ms_def bind_def Let_def)
qed

lemma fs_example_server:
  "fs (example_server msgs) =
     \<lparr>data_file = Content (JSON_stringify (JArr (map message_json msgs))), writable = True\<rparr>"
  by (simp add: example_server_def startup_fs ensureDataDirectory_def)

lemma holds_example_server: "holds (fs (example_server msgs)) msgs"
  using holds_after_write [where files = "\<lparr>data_file = Missing, writable = True\<rparr>" and msgs = msgs]
  by (simp add: fs_example_server)

lemma example_default_hours: "AUTO_DELETE_HOURS example_config = 24"
proof -
  have "auto_delete_hours_of_env None = 24" by code_simp
  then show ?thesis by (simp add: example_config_def)
qed

section \<open>Validation of \<open>hours\<close>\<close>

lemma not_accepted_number: "\<not> accepted_number x \<longleftrightarrow> x = NaN \<or> negative x"
  by (cases x) (auto simp: accepted_number_def negative_def)

lemma invalid_hours_number:
  "invalid_hours (Some (JNum m e)) = Inr (scale10 (of_int m) e \<le> 1 / 2 ^ 1075)"
proof -
  define x where "x = scale10 (of_int m) e"
  define t :: rat where "t = 1 / 2 ^ 1075"
  have t: "0 < t" by (simp add: t_def)
  have z: "num_value m e = Fin 0 \<longleftrightarrow> \<bar>x\<bar> \<le> t"
    unfolding num_value_def x_def t_def by (rule round_double_zero)
  have n: "negative (num_value m e) \<longleftrightarrow> x < - t"
    unfolding num_value_def x_def t_def by (rule round_double_negative)
  have nn: "num_value m e \<noteq> NaN" by (simp add: num_value_def round_double_not_NaN)
  have c: "(if \<bar>x\<bar> \<le> t then True else x < - t) \<longleftrightarrow> x \<le> t" using t by auto
  have "invalid_hours (Some (JNum m e)) = Inr (if \<bar>x\<bar> \<le> t then True else x < - t)"
    by (simp add: invalid_hours_def isNaN_def less_zero_def bind_def z n nn)
  then show ?thesis unfolding c unfolding x_def t_def .
qed

lemma to_number_to_string: "to_number (Some v) = Inr n \<Longrightarrow> \<exists>s. to_string v = Inr s"
  by (cases v) (auto simp: bind_def split: sum.splits if_splits)

lemma invalid_hours_accepted:
  assumes "invalid_hours h = Inr False"
  shows "\<exists>n s. to_number h = Inr n \<and> template_value h = Inr s"
proof -
  have tr: "truthy h" using assms by (auto simp: invalid_hours_def split: if_splits)
  then obtain v where h: "h = Some v" by (cases h) auto
  obtain n where n: "to_number h = Inr n"
    using assms tr by (cases "to_number h") (auto simp: invalid_hours_def isNaN_def bind_def)
  obtain s where "to_string v = Inr s" using to_number_to_string n h by blast
  then show ?thesis using n h by (simp add: template_value_def)
qed

lemma invalid_hours_cases:
  "invalid_hours h =
     (case h of
        None \<Rightarrow> Inr True
      | Some JNull \<Rightarrow> Inr True
      | Some (JBool b) \<Rightarrow> Inr (\<not> b)
      | Some (JNum m e) \<Rightarrow> Inr (scale10 (of_int m) e \<le> 1 / 2 ^ 1075)
      | Some (JStr s) \<Rightarrow> Inr (s = [] \<or> \<not> accepted_number (str_to_number s))
      | Some (JArr xs) \<Rightarrow>
          (case to_string (JArr xs) of
             Inl err \<Rightarrow> Inl err
           | Inr s \<Rightarrow> Inr (\<not> accepted_number (str_to_number s)))
      | Some (JObj kvs) \<Rightarrow>
          if S ''toString'' \<in> fst ` set kvs then Inl TypeError else Inr True)"
proof (cases h)
  case None
  then show ?thesis by (simp add: invalid_hours_def)
next
  case (Some v)
  show ?thesis
  proof (cases v)
    case JNull
    then show ?thesis using Some by (simp add: invalid_hours_def)
  next
    case (JBool b)
    then show ?thesis
      using Some by (simp add: invalid_hours_def isNaN_def less_zero_def bind_def negative_def)
  next
    case (JNum m e)
    then show ?thesis using Some by (simp add: invalid_hours_number)
  next
    case (JStr s)
    then show ?thesis
      using Some
      by (auto simp: invalid_hours_def isNaN_def less_zero_def bind_def not_accepted_number)
  next
    case (JArr xs)
    show ?thesis
    proof (cases "to_string (JArr xs)")
      case (Inl err)
      then show ?thesis
        using Some JArr
        by (simp add: invalid_hours_def isNaN_def less_zero_def bind_def del: to_string.simps)
    next
      case (Inr s)
      then show ?thesis
        using Some JArr
        by (auto simp: invalid_hours_def isNaN_def less_zero_def bind_def not_accepted_number
            simp del: to_string.simps)
    qed
  next
    case (JObj kvs)
    have "str_to_number (S ''[object Object]'') = NaN" by code_simp
    then show ?thesis
      using Some JObj by (simp add: invalid_hours_def isNaN_def less_zero_def bind_def)
  qed
qed

lemma post_auto_delete_status:
  assumes "req_method req = POST" and "req_path req = [S ''messages'', S ''auto-delete'']"
  shows "res_status (fst (handle_request cfg pf req st)) =
     (case invalid_hours (get_prop (req_body req) (S ''hours'')) of
        Inl err \<Rightarrow> 500
      | Inr invalid \<Rightarrow> if invalid then 400 else 200)"
proof (cases "invalid_hours (get_prop (req_body req) (S ''hours''))")
  case (Inl err)
  then show ?thesis
    using assms
    by (simp add: handle_request_def find_post_auto_delete post_auto_delete_def bind_def
        error_handler_def Let_def)
next
  case (Inr invalid)
  show ?thesis
  proof (cases invalid)
    case True
    then show ?thesis
      using assms Inr
      by (simp add: handle_request_def find_post_auto_delete post_auto_delete_def bind_def Let_def)
  next
    case False
    then have "invalid_hours (get_prop (req_body req) (S ''hours'')) = Inr False"
      using Inr by simp
    then obtain n s where "to_number (get_prop (req_body req) (S ''hours'')) = Inr n"
      "template_value (get_prop (req_body req) (S ''hours'')) = Inr s"
      using invalid_hours_accepted by blast
    then show ?thesis
      using assms Inr False
      by (simp add: handle_request_def find_post_auto_delete post_auto_delete_def bind_def
          startAutoDeleteTimer_def hours_to_ms_def Let_def)
  qed
qed

lemma delete_older_than_validation:
  "delete_older_than cfg pf req params st =
     Inr (\<lparr>res_status = 400,
           res_body = JObj [(S ''error'', JStr (S ''Valid hours parameter is required''))]\<rparr>, st)
   \<longleftrightarrow> invalid_hours (get_prop (req_body req) (S ''hours'')) = Inr True"
proof (cases "invalid_hours (get_prop (req_body req) (S ''hours''))")
  case (Inl err)
  then show ?thesis by (simp add: delete_older_than_def bind_def Let_def)
next
  case (Inr invalid)
  show ?thesis
  proof (cases invalid)
    case True
    then show ?thesis using Inr by (simp add: delete_older_than_def bind_def error_body_def Let_def)
  next
    case False
    then have "invalid_hours (get_prop (req_body req) (S ''hours'')) = Inr False"
      using Inr by simp
    then obtain n s where n: "to_number (get_prop (req_body req) (S ''hours'')) = Inr n"
      and s: "template_value (get_prop (req_body req) (S ''hours'')) = Inr s"
      using invalid_hours_accepted by blast
    obtain v where r: "readMessages (fs st) = Inr v" by (simp add: readMessages_result)
    show ?thesis
      using Inr False n s r
      by (cases "array_filter (not_older pf (time_clip (minus_from (Date_now pf)
              (times_const (times_const (times_const n 60) 60) 1000)))) v")
         (simp_all add: delete_older_than_def bind_def hours_to_ms_def writeMessages_result
            Let_def error_body_def)
  qed
qed

lemma tiny_rounds_to_zero: "round_double (scale10 1 (- 400)) = Fin 0"
proof -
  have "\<bar>scale10 1 (- 400)\<bar> \<le> 1 / 2 ^ 1075" by (simp add: scale10_def)
  then show ?thesis by (simp only: round_double_zero)
qed

lemma tiny_negative_string: "str_to_number (S ''-1e-400'') = Fin 0"
  by (simp add: str_to_number_def unsigned_decimal_def trim_def S_def is_js_space_def
      is_digit_def digits_val_def digit_val_def Let_def scale10_0 tiny_rounds_to_zero)

text \<open>
  C3, as amended. POST /messages/auto-delete answers 400 exactly when \<open>hours\<close> is falsy
  (absent, \<open>null\<close>, \<open>false\<close>, a number that is zero as a double, the empty string) or
  converts to NaN or to a negative number. It answers 500 when the conversion throws,
  which it does for an object that has an own property \<open>toString\<close> and for an array that
  holds one at any depth. It answers 200 otherwise. A number written \<open>m * 10 ^ e\<close> is therefore
  rejected exactly when it is at most \<open>2 ^ - 1075\<close>, the largest magnitude that rounds to
  zero; \<open>true\<close>, and a string or array that converts to a number that is not negative,
  pass. The handler written for DELETE /messages/older-than answers 400 under the same
  test.
\<close>

theorem post_auto_delete_validation:
  assumes "req_method req = POST" and "req_path req = [S ''messages'', S ''auto-delete'']"
  shows "res_status (fst (handle_request cfg pf req st)) =
           (case invalid_hours (get_prop (req_body req) (S ''hours'')) of
              Inl err \<Rightarrow> 500
            | Inr invalid \<Rightarrow> if invalid then 400 else 200) \<and>
         invalid_hours (get_prop (req_body req) (S ''hours'')) =
            (case get_prop (req_body req) (S ''hours'') of
               None \<Rightarrow> Inr True
             | Some JNull \<Rightarrow> Inr True
             | Some (JBool b) \<Rightarrow> Inr (\<not> b)
             | Some (JNum m e) \<Rightarrow> Inr (scale10 (of_int m) e \<le> 1 / 2 ^ 1075)
             | Some (JStr s) \<Rightarrow> Inr (s = [] \<or> \<not> accepted_number (str_to_number s))
             | Some (JArr xs) \<Rightarrow>
                 (case to_string (JArr xs) of
                    Inl err \<Rightarrow> Inl err
                  | Inr s \<Rightarrow> Inr (\<not> accepted_number (str_to_number s)))
             | Some (JObj kvs) \<Rightarrow>
                 if S ''toString'' \<in> fst ` set kvs then Inl TypeError else Inr True) \<and>
         (delete_older_than cfg pf req2 params st2 =
            Inr (\<lparr>res_status = 400,
                  res_body = JObj [(S ''error'', JStr (S ''Valid hours parameter is required''))]\<rparr>,
                 st2)
          \<longleftrightarrow> invalid_hours (get_prop (req_body req2) (S ''hours'')) = Inr True)"
  using post_auto_delete_status [OF assms, of cfg pf st]
    invalid_hours_cases [of "get_prop (req_body req) (S ''hours'')"]
    delete_older_than_validation [of cfg pf req2 params st2]
  by (simp only:)

theorem post_auto_delete_validation_witness:
  "res_status (fst (handle_request example_config (example_platform 1700000000000)
      \<lparr>req_method = POST, req_path = [S ''messages'', S ''auto-delete''],
       req_originalUrl = S ''/messages/auto-delete'',
       req_body = JObj [(S ''hours'', JNum 5 0)]\<rparr> (example_server []))) = 200 \<and>
   res_status (fst (handle_request example_config (example_platform 1700000000000)
      \<lparr>req_method = POST, req_path = [S ''messages'', S ''auto-delete''],
       req_originalUrl = S ''/messages/auto-delete'',
       req_body = JObj [(S ''hours'', JNum 0 0)]\<rparr> (example_server []))) = 400 \<and>
   res_status (fst (handle_request example_config (example_platform 1700000000000)
      \<lparr>req_method = POST, req_path = [S ''messages'', S ''auto-delete''],
       req_originalUrl = S ''/messages/auto-delete'',
       req_body = JObj [(S ''hours'', JStr (S ''-1e-400''))]\<rparr> (example_server []))) = 200 \<and>
   res_status (fst (handle_request example_config (example_platform 1700000000000)
      \<lparr>req_method = POST, req_path = [S ''messages'', S ''auto-delete''],
       req_originalUrl = S ''/messages/auto-delete'',
       req_body = JObj [(S ''hours'', JObj [(S ''toString'', JNum 1 0)])]\<rparr>
      (example_server []))) = 500"
proof -
  let ?req = "\<lambda>h. \<lparr>req_method = POST, req_path = [S ''messages'', S ''auto-delete''],
       req_originalUrl = S ''/messages/auto-delete'', req_body = JObj [(S ''hours'', h)]\<rparr>"
  have g: "get_prop (req_body (?req h)) (S ''hours'') = Some h" for h by (simp add: S_def)
  have a: "accepted_number (Fin 0)" by (simp add: accepted_number_def)
  have n: "S ''-1e-400'' \<noteq> []" by (simp add: S_def)
  have s: "scale10 5 0 = 5" "scale10 0 0 = 0" by (simp_all add: scale10_def)
  have 1: "res_status (fst (handle_request example_config (example_platform 1700000000000)
      (?req (JNum 5 0)) (example_server []))) = 200"
    using post_auto_delete_validation
      [where req = "?req (JNum 5 0)" and cfg = example_config
         and pf = "example_platform 1700000000000" and st = "example_server []"]
    unfolding g by (simp add: s)
  have 2: "res_status (fst (handle_request example_config (example_platform 1700000000000)
      (?req (JNum 0 0)) (example_server []))) = 400"
    using post_auto_delete_validation
      [where req = "?req (JNum 0 0)" and cfg = example_config
         and pf = "example_platform 1700000000000" and st = "example_server []"]
    unfolding g by (simp add: s)
  have 3: "res_status (fst (handle_request example_config (example_platform 1700000000000)
      (?req (JStr (S ''-1e-400''))) (example_server []))) = 200"
    using post_auto_delete_validation
      [where req = "?req (JStr (S ''-1e-400''))" and cfg = example_config
         and pf = "example_platform 1700000000000" and st = "example_server []"]
    unfolding g by (simp add: tiny_negative_string a n)
  have 4: "res_status (fst (handle_request example_config (example_platform 1700000000000)
      (?req (JObj [(S ''toString'', JNum 1 0)])) (example_server []))) = 500"
    using post_auto_delete_validation
      [where req = "?req (JObj [(S ''toString'', JNum 1 0)])" and cfg = example_config
         and pf = "example_platform 1700000000000" and st = "example_server []"]
    unfolding g by simp
  show ?thesis using 1 2 3 4 by simp
qed

text \<open>
  The claim as first stated fails: \<open>hours = true\<close> is not a number, yet
  POST /messages/auto-delete accepts it (it converts to 1) and answers 200.
\<close>

theorem post_auto_delete_accepts_true:
  "res_status (fst (handle_request example_config (example_platform 1700000000000)
      \<lparr>req_method = POST, req_path = [S ''messages'', S ''auto-delete''],
       req_originalUrl = S ''/messages/auto-delete'',
       req_body = JObj [(S ''hours'', JBool True)]\<rparr> (example_server []))) = 200"
proof -
  have "get_prop (JObj [(S ''hours'', JBool True)]) (S ''hours'') = Some (JBool True)"
    by (simp add: S_def)
  then show ?thesis
    by (simp add: post_auto_delete_status invalid_hours_cases)
qed

section \<open>The auto-delete setting\<close>

text \<open>
  C10. GET /messages/auto-delete reports as \<open>currentSetting\<close> the constant
  \<open>AUTO_DELETE_HOURS\<close> computed at start-up (24 when the environment does not set
  it), whatever the server state: an accepted POST /messages/auto-delete replaces the
  timer (its hours and its period) and leaves the answer of GET /messages/auto-delete as
  it was.
\<close>

theorem get_auto_delete_reports_default:
  assumes "req_method post = POST" and "req_path post = [S ''messages'', S ''auto-delete'']"
    and "get_prop (req_body post) (S ''hours'') = hours" and "invalid_hours hours = Inr False"
    and "req_method get = GET" and "req_path get = [S ''messages'', S ''auto-delete'']"
  shows "fst (handle_request cfg pf get st) =
           \<lparr>res_status = 200,
            res_body = JObj [(S ''autoDeleteEnabled'', JBool True),
                             (S ''currentSetting'',
                              JStr (number_to_string (AUTO_DELETE_HOURS cfg) 0 @ S '' hours'')),
                             (S ''configurable'', JBool True)]\<rparr> \<and>
         (\<exists>ms. hours_to_ms hours = Inr ms \<and>
            autoDeleteTimer (snd (handle_request cfg pf' post st)) =
              Some \<lparr>timer_hours = hours, intervalMs = ms\<rparr>) \<and>
         fst (handle_request cfg pf'' get (snd (handle_request cfg pf' post st))) =
           fst (handle_request cfg pf get st) \<and>
         auto_delete_hours_of_env None = 24"
proof -
  have d: "auto_delete_hours_of_env None = 24" by code_simp
  obtain n s where n: "to_number hours = Inr n" and s: "template_value hours = Inr s"
    using invalid_hours_accepted assms(4) by blast
  show ?thesis
    using assms d n s
    by (simp add: handle_request_def find_post_auto_delete find_get_auto_delete
        post_auto_delete_def get_auto_delete_def startAutoDeleteTimer_def hours_to_ms_def
        bind_def Let_def)
qed

theorem get_auto_delete_reports_default_witness:
  "fst (handle_request example_config (example_platform 1700000000000)
      \<lparr>req_method = GET, req_path = [S ''messages'', S ''auto-delete''],
       req_originalUrl = S ''/messages/auto-delete'', req_body = JObj []\<rparr>
      (snd (handle_request example_config (example_platform 1700000000000)
         \<lparr>req_method = POST, req_path = [S ''messages'', S ''auto-delete''],
          req_originalUrl = S ''/messages/auto-delete'',
          req_body = JObj [(S ''hours'', JNum 48 0)]\<rparr> (example_server [])))) =
     \<lparr>res_status = 200,
      res_body = JObj [(S ''autoDeleteEnabled'', JBool True),
                       (S ''currentSetting'', JStr (S ''24 hours'')),
                       (S ''configurable'', JBool True)]\<rparr> \<and>
   autoDeleteTimer (snd (handle_request example_config (example_platform 1700000000000)
         \<lparr>req_method = POST, req_path = [S ''messages'', S ''auto-delete''],
          req_originalUrl = S ''/messages/auto-delete'',
          req_body = JObj [(S ''hours'', JNum 48 0)]\<rparr> (example_server []))) =
     Some \<lparr>timer_hours = Some (JNum 48 0), intervalMs = Fin 172800000\<rparr>"
proof -
  let ?get = "\<lparr>req_method = GET, req_path = [S ''messages'', S ''auto-delete''],
       req_originalUrl = S ''/messages/auto-delete'', req_body = JObj []\<rparr>"
  let ?post = "\<lparr>req_method = POST, req_path = [S ''messages'', S ''auto-delete''],
          req_originalUrl = S ''/messages/auto-delete'',
          req_body = JObj [(S ''hours'', JNum 48 0)]\<rparr>"
  have n: "number_to_string 24 0 = S ''24''" by code_simp
  have v48: "num_value 48 0 = Fin 48" using num_value_int [of 48] by simp
  have h: "hours_to_ms (Some (JNum 48 0)) = Inr (Fin 172800000)"
    by (simp add: hours_to_ms_def bind_def times_const_def v48 round_double_numeral)
  have g: "get_prop (req_body ?post) (S ''hours'') = Some (JNum 48 0)" by (simp add: S_def)
  have v: "invalid_hours (Some (JNum 48 0)) = Inr False"
    by (simp add: invalid_hours_number scale10_def)
  show ?thesis
    using get_auto_delete_reports_default
      [where post = ?post and get = ?get and hours = "Some (JNum 48 0)" and cfg = example_config
         and pf = "example_platform 1700000000000" and st = "example_server []"
         and pf' = "example_platform 1700000000000" and pf'' = "example_platform 1700000000000",
       OF _ _ g v]
    by (simp add: example_default_hours n h S_def)
qed

section \<open>Deleting one message\<close>

lemma filter_throwing_total:
  "(\<And>x. x \<in> set xs \<Longrightarrow> p x = Inr (q x)) \<Longrightarrow> filter_throwing p xs = Inr (filter q xs)"
  by (induction xs) (simp_all add: bind_def)

lemma get_prop_message:
  "get_prop (message_json m) (S ''id'') = Some (JStr (msg_id m))"
  "get_prop (message_json m) (S ''text'') = Some (JStr (msg_text m))"
  "get_prop (message_json m) (S ''timestamp'') = Some (JStr (msg_timestamp m))"
  by (simp_all add: message_json_def S_def)

lemma message_json_not_null: "message_json m \<noteq> JNull"
  by (simp add: message_json_def)

lemma filter_by_id_messages:
  "array_filter (id_differs (Some (JStr x))) (JArr (map message_json msgs)) =
   Inr (map message_json (filter (\<lambda>m. msg_id m \<noteq> x) msgs))"
proof -
  have "filter_throwing (id_differs (Some (JStr x))) (map message_json msgs) =
      Inr (filter (\<lambda>j. get_prop j (S ''id'') \<noteq> Some (JStr x)) (map message_json msgs))"
    by (rule filter_throwing_total) (auto simp: id_differs_def message_json_not_null)
  then show ?thesis
    by (simp add: array_filter_def filter_map comp_def get_prop_message)
qed

lemma length_filter_same: "length (filter P xs) = length xs \<longleftrightarrow> (\<forall>x \<in> set xs. P x)"
proof
  assume l: "length (filter P xs) = length xs"
  show "\<forall>x \<in> set xs. P x"
  proof (rule ccontr)
    assume "\<not> (\<forall>x \<in> set xs. P x)"
    then obtain x where "x \<in> set xs" "\<not> P x" by blast
    then have "length (filter P xs) < length xs" by (rule length_filter_less)
    then show False using l by simp
  qed
next
  assume "\<forall>x \<in> set xs. P x"
  then show "length (filter P xs) = length xs" by simp
qed

lemma length_filter_distinct:
  "distinct xs \<Longrightarrow> x \<in> set xs \<Longrightarrow> length (filter (\<lambda>i. i \<noteq> x) xs) + 1 = length xs"
proof (induction xs)
  case Nil
  then show ?case by simp
next
  case (Cons y ys)
  show ?case
  proof (cases "y = x")
    case True
    then have "x \<notin> set ys" using Cons.prems by simp
    then have "filter (\<lambda>i. i \<noteq> x) ys = ys" by (auto simp: filter_id_conv)
    then show ?thesis using True by simp
  next
    case False
    then show ?thesis using Cons by simp
  qed
qed

lemma JInt_1: "JInt 1 = JNum 1 0"
  by (simp add: JInt_def mk_num_def strip_zeros.simps)

lemma delete_message_by_id_result:
  assumes "holds (fs st) msgs"
  shows "delete_message_by_id cfg pf req [x] st =
     Inr (if \<forall>m \<in> set msgs. msg_id m \<noteq> x
          then (\<lparr>res_status = 404, res_body = JObj [(S ''error'', JStr (S ''Message not found''))]\<rparr>, st)
          else if writable (fs st) \<and> data_file (fs st) \<noteq> Inaccessible
          then (\<lparr>res_status = 200,
                 res_body = JObj [(S ''message'', JStr (S ''Message deleted successfully'')),
                                  (S ''deletedCount'', JNum 1 0)]\<rparr>,
                st\<lparr>fs := (fs st)\<lparr>data_file := Content (JSON_stringify
                         (JArr (map message_json (filter (\<lambda>m. msg_id m \<noteq> x) msgs))))\<rparr>\<rparr>)
          else (\<lparr>res_status = 500,
                 res_body = JObj [(S ''error'', JStr (S ''Failed to delete message''))]\<rparr>, st))"
  using assms
  by (simp add: delete_message_by_id_def holds_def bind_def filter_by_id_messages
      length_filter_same writeMessages_result error_body_def JInt_1)

text \<open>
  C5. For every stored collection, DELETE /messages/:id with an id that no stored message
  has answers 404 and leaves the server state, the data file included, as it was. With an
  id that a stored message has (and a file system that takes the write) it answers 200
  with \<open>deletedCount\<close> 1, and the collection stored afterwards is the old one without the
  messages of that id, the others in their order; when ids are unique that is exactly
  one message less.
\<close>

theorem delete_by_id_not_found_or_removed:
  assumes "req_method req = DELETE" and "req_path req = [S ''messages'', x]"
    and "holds (fs st) msgs"
  shows "(x \<notin> msg_id ` set msgs \<longrightarrow>
            handle_request cfg pf req st =
              (\<lparr>res_status = 404, res_body = JObj [(S ''error'', JStr (S ''Message not found''))]\<rparr>, st)) \<and>
         (x \<in> msg_id ` set msgs \<and> writable (fs st) \<longrightarrow>
            (\<exists>st'. handle_request cfg pf req st =
               (\<lparr>res_status = 200,
                 res_body = JObj [(S ''message'', JStr (S ''Message deleted successfully'')),
                                  (S ''deletedCount'', JNum 1 0)]\<rparr>, st') \<and>
               holds (fs st') (filter (\<lambda>m. msg_id m \<noteq> x) msgs) \<and>
               autoDeleteTimer st' = autoDeleteTimer st \<and>
               (distinct (map msg_id msgs) \<longrightarrow>
                  length (filter (\<lambda>m. msg_id m \<noteq> x) msgs) + 1 = length msgs)))"
proof (intro conjI impI)
  assume "x \<notin> msg_id ` set msgs"
  then have "\<forall>m \<in> set msgs. msg_id m \<noteq> x" by auto
  then show "handle_request cfg pf req st =
      (\<lparr>res_status = 404, res_body = JObj [(S ''error'', JStr (S ''Message not found''))]\<rparr>, st)"
    using assms by (simp add: handle_request_def find_delete_by_id delete_message_by_id_result)
next
  assume a: "x \<in> msg_id ` set msgs \<and> writable (fs st)"
  then have ne: "\<not> (\<forall>m \<in> set msgs. msg_id m \<noteq> x)" by auto
  have "msgs \<noteq> []" using a by auto
  then have acc: "data_file (fs st) \<noteq> Inaccessible"
    using assms(3) by (auto simp: holds_def readMessages_result)
  let ?st' = "st\<lparr>fs := (fs st)\<lparr>data_file := Content (JSON_stringify
                 (JArr (map message_json (filter (\<lambda>m. msg_id m \<noteq> x) msgs))))\<rparr>\<rparr>"
  have r: "handle_request cfg pf req st =
      (\<lparr>res_status = 200,
        res_body = JObj [(S ''message'', JStr (S ''Message deleted successfully'')),
                         (S ''deletedCount'', JNum 1 0)]\<rparr>, ?st')"
    using assms a ne acc
    by (simp add: handle_request_def find_delete_by_id delete_message_by_id_result)
  have h: "holds (fs ?st') (filter (\<lambda>m. msg_id m \<noteq> x) msgs)"
    by (simp add: holds_after_write)
  have d: "distinct (map msg_id msgs) \<longrightarrow>
      length (filter (\<lambda>m. msg_id m \<noteq> x) msgs) + 1 = length msgs"
  proof
    assume dist: "distinct (map msg_id msgs)"
    have "x \<in> set (map msg_id msgs)" using a by simp
    then have "length (filter (\<lambda>i. i \<noteq> x) (map msg_id msgs)) + 1 = length (map msg_id msgs)"
      using dist by (simp only: length_filter_distinct)
    then show "length (filter (\<lambda>m. msg_id m \<noteq> x) msgs) + 1 = length msgs"
      by (simp add: filter_map comp_def)
  qed
  show "\<exists>st'. handle_request cfg pf req st =
               (\<lparr>res_status = 200,
                 res_body = JObj [(S ''message'', JStr (S ''Message deleted successfully'')),
                                  (S ''deletedCount'', JNum 1 0)]\<rparr>, st') \<and>
               holds (fs st') (filter (\<lambda>m. msg_id m \<noteq> x) msgs) \<and>
               autoDeleteTimer st' = autoDeleteTimer st \<and>
               (distinct (map msg_id msgs) \<longrightarrow>
                  length (filter (\<lambda>m. msg_id m \<noteq> x) msgs) + 1 = length msgs)"
    using r h d by (intro exI [of _ ?st']) simp
qed

theorem delete_by_id_not_found_or_removed_witness:
  "handle_request example_config (example_platform 1700000000000)
      \<lparr>req_method = DELETE, req_path = [S ''messages'', S ''42''],
       req_originalUrl = S ''/messages/42'', req_body = JObj []\<rparr> (example_server [old_message]) =
     (\<lparr>res_status = 404, res_body = JObj [(S ''error'', JStr (S ''Message not found''))]\<rparr>,
      example_server [old_message]) \<and>
   (\<exists>st'. handle_request example_config (example_platform 1700000000000)
      \<lparr>req_method = DELETE, req_path = [S ''messages'', S ''1577836800000''],
       req_originalUrl = S ''/messages/1577836800000'', req_body = JObj []\<rparr>
      (example_server [old_message]) =
     (\<lparr>res_status = 200,
       res_body = JObj [(S ''message'', JStr (S ''Message deleted successfully'')),
                        (S ''deletedCount'', JNum 1 0)]\<rparr>, st') \<and>
     holds (fs st') [])"
proof -
  have a: "S ''42'' \<notin> msg_id ` set [old_message]" by (simp add: old_message_def S_def)
  have b: "S ''1577836800000'' \<in> msg_id ` set [old_message]" by (simp add: old_message_def)
  have w: "writable (fs (example_server [old_message]))" by (simp add: fs_example_server)
  have f: "filter (\<lambda>m. msg_id m \<noteq> S ''1577836800000'') [old_message] = []"
    by (simp add: old_message_def)
  show ?thesis
    using a b w
      delete_by_id_not_found_or_removed
        [of "\<lparr>req_method = DELETE, req_path = [S ''messages'', S ''42''],
              req_originalUrl = S ''/messages/42'', req_body = JObj []\<rparr>" "S ''42''"
            "example_server [old_message]" "[old_message]" example_config
            "example_platform 1700000000000"]
      delete_by_id_not_found_or_removed
        [of "\<lparr>req_method = DELETE, req_path = [S ''messages'', S ''1577836800000''],
              req_originalUrl = S ''/messages/1577836800000'', req_body = JObj []\<rparr>"
            "S ''1577836800000''"
            "example_server [old_message]" "[old_message]" example_config
            "example_platform 1700000000000"]
    by (simp only: f request.simps holds_example_server simp_thms) blast
qed

section \<open>Deleting what is older than some hours\<close>

lemma filter_not_older_messages:
  "array_filter (not_older pf c) (JArr (map message_json msgs)) =
   Inr (map message_json (filter (\<lambda>m. date_ge (Date_parse pf (msg_timestamp m)) c) msgs))"
proof -
  define q where
    "q j = date_ge (case get_prop j (S ''timestamp'') of
                      Some (JStr s) \<Rightarrow> Date_parse pf s | _ \<Rightarrow> None) c" for j
  have "filter_throwing (not_older pf c) (map message_json msgs) =
      Inr (filter q (map message_json msgs))"
    by (rule filter_throwing_total)
       (auto simp: not_older_def message_json_not_null get_prop_message date_of_value_def
          bind_def q_def)
  then show ?thesis
    by (simp add: array_filter_def filter_map comp_def get_prop_message q_def)
qed

lemma delete_older_than_result:
  assumes "holds (fs st) msgs" and "get_prop (req_body req) (S ''hours'') = hours"
    and "invalid_hours hours = Inr False" and "hours_to_ms hours = Inr ms"
    and "template_value hours = Inr shown"
  shows "delete_older_than cfg pf req params st =
     (let cutoffTime = time_clip (minus_from (Date_now pf) ms);
          kept = filter (\<lambda>m. date_ge (Date_parse pf (msg_timestamp m)) cutoffTime) msgs
      in Inr (if writable (fs st) \<and> data_file (fs st) \<noteq> Inaccessible
              then (\<lparr>res_status = 200,
                     res_body =
                       JObj [(S ''message'',
                              JStr (S ''Messages older than '' @ shown @
                                    S '' hours deleted successfully'')),
                             (S ''deletedCount'', JInt (int (length msgs) - int (length kept)))]\<rparr>,
                    st\<lparr>fs := (fs st)\<lparr>data_file :=
                          Content (JSON_stringify (JArr (map message_json kept)))\<rparr>\<rparr>)
              else (\<lparr>res_status = 500,
                     res_body = JObj [(S ''error'', JStr (S ''Failed to delete old messages''))]\<rparr>,
                    st)))"
  using assms
  by (simp add: delete_older_than_def holds_def bind_def filter_not_older_messages
      writeMessages_result error_body_def Let_def)

lemma find_older_than_shadowed:
  "req_method req = DELETE \<Longrightarrow> req_path req = [S ''messages'', S ''older-than''] \<Longrightarrow>
   find_route routes req = Some (delete_message_by_id, [S ''older-than''])"
  by (rule find_delete_by_id)

lemma older_than_request_not_found:
  assumes "req_method req = DELETE" and "req_path req = [S ''messages'', S ''older-than'']"
    and "holds (fs st) msgs" and "\<forall>m \<in> set msgs. msg_id m \<noteq> S ''older-than''"
  shows "handle_request cfg pf req st =
     (\<lparr>res_status = 404, res_body = JObj [(S ''error'', JStr (S ''Message not found''))]\<rparr>, st)"
  using assms
  by (simp add: handle_request_def find_older_than_shadowed delete_message_by_id_result)

lemma double_digits_1: "double_digits 1 = (1, 0)"
proof -
  have d: "decimal_exponent 1 = 1"
    by (simp add: decimal_exponent_def digit_count.simps scale10_def)
  have "digits_at 1 0 = Some 1"
    unfolding digits_at_def round_trips_def Let_def
    by (simp add: scale10_def round_double_1 round_double_numeral)
  then show ?thesis unfolding double_digits_def d by (simp add: numeral_eq_Suc)
qed

text \<open>
  C1. The claim describes what the handler written for DELETE /messages/older-than does
  (\<open>delete_older_than_result\<close>), but no request reaches that handler: the route
  \<open>/messages/:id\<close> is registered before it and matches the path with \<open>id\<close> =
  \<open>older-than\<close>. On a store holding one message of 2020, a DELETE /messages/older-than
  with \<open>hours\<close> 1, sent in 2023, answers 404 "Message not found" and removes nothing;
  the handler itself, had it been called, would have removed the message and answered
  \<open>deletedCount\<close> 1.
\<close>

theorem older_than_request_hits_by_id_route:
  "handle_request example_config (example_platform 1700000000000)
      \<lparr>req_method = DELETE, req_path = [S ''messages'', S ''older-than''],
       req_originalUrl = S ''/messages/older-than'',
       req_body = JObj [(S ''hours'', JNum 1 0)]\<rparr> (example_server [old_message]) =
     (\<lparr>res_status = 404, res_body = JObj [(S ''error'', JStr (S ''Message not found''))]\<rparr>,
      example_server [old_message]) \<and>
   (\<exists>st'. delete_older_than example_config (example_platform 1700000000000)
      \<lparr>req_method = DELETE, req_path = [S ''messages'', S ''older-than''],
       req_originalUrl = S ''/messages/older-than'',
       req_body = JObj [(S ''hours'', JNum 1 0)]\<rparr> [] (example_server [old_message]) =
     Inr (\<lparr>res_status = 200,
           res_body = JObj [(S ''message'', JStr (S ''Messages older than 1 hours deleted successfully'')),
                            (S ''deletedCount'', JNum 1 0)]\<rparr>, st') \<and>
     holds (fs st') [])"
proof -
  let ?req = "\<lparr>req_method = DELETE, req_path = [S ''messages'', S ''older-than''],
       req_originalUrl = S ''/messages/older-than'',
       req_body = JObj [(S ''hours'', JNum 1 0)]\<rparr>"
  have ne: "\<forall>m \<in> set [old_message]. msg_id m \<noteq> S ''older-than''"
    by (simp add: old_message_def S_def)
  have first: "handle_request example_config (example_platform 1700000000000) ?req
      (example_server [old_message]) =
     (\<lparr>res_status = 404, res_body = JObj [(S ''error'', JStr (S ''Message not found''))]\<rparr>,
      example_server [old_message])"
    using ne
    by (simp add: handle_request_def find_older_than_shadowed
        delete_message_by_id_result [OF holds_example_server])
  have g: "get_prop (req_body ?req) (S ''hours'') = Some (JNum 1 0)" by (simp add: S_def)
  have v: "invalid_hours (Some (JNum 1 0)) = Inr False"
    by (simp add: invalid_hours_number scale10_def)
  have v1: "num_value 1 0 = Fin 1" using num_value_int [of 1] by simp
  have ms: "hours_to_ms (Some (JNum 1 0)) = Inr (Fin 3600000)"
    by (simp add: hours_to_ms_def bind_def times_const_def v1 round_double_numeral)
  have p: "parse_iso (S ''2020-01-01T00:00:00.000Z'') = Some 1577836800000" by code_simp
  have c: "time_clip (minus_from 1700000000000 (Fin 3600000)) = Some 1699996400000"
    by (simp add: time_clip_def minus_from_def round_double_numeral)
  have n: "number_to_string 1 0 = S ''1''" by code_simp
  have t: "template_value (Some (JNum 1 0)) = Inr (S ''1'')"
    by (simp add: template_value_def double_to_string_def v1 double_digits_1 n)
  have k: "filter (\<lambda>m. date_ge (Date_parse (example_platform 1700000000000) (msg_timestamp m))
        (time_clip (minus_from (Date_now (example_platform 1700000000000))
           (Fin 3600000)))) [old_message] = []"
    by (simp add: example_platform_def old_message_def p c date_ge_def)
  have second: "delete_older_than example_config (example_platform 1700000000000) ?req []
      (example_server [old_message]) =
     Inr (\<lparr>res_status = 200,
           res_body = JObj [(S ''message'', JStr (S ''Messages older than 1 hours deleted successfully'')),
                            (S ''deletedCount'', JNum 1 0)]\<rparr>,
          (example_server [old_message])\<lparr>fs := (fs (example_server [old_message]))\<lparr>data_file :=
             Content (JSON_stringify (JArr (map message_json [])))\<rparr>\<rparr>)"
    unfolding delete_older_than_result [OF holds_example_server g v ms t] Let_def k
    by (simp add: fs_example_server JInt_1 S_def)
  have h: "holds (fs ((example_server [old_message])\<lparr>fs := (fs (example_server [old_message]))\<lparr>data_file :=
             Content (JSON_stringify (JArr (map message_json [])))\<rparr>\<rparr>)) []"
    using holds_after_write [where files = "fs (example_server [old_message])" and msgs = "[]"]
    by simp
  show ?thesis using first second h by blast
qed

section \<open>Creating a message: accepted texts\<close>

lemma digit_val_digit_char: "d < 10 \<Longrightarrow> digit_val (digit_char d) = d"
proof -
  assume d: "d < 10"
  then have "(48 + d) mod 65536 = 48 + d" by simp
  then have "unat (of_nat (48 + d) :: 16 word) = 48 + d" by (simp only: unat_of_nat) simp
  then show ?thesis unfolding digit_val_def digit_char_def by simp
qed

lemma digits_val_snoc: "digits_val (ds @ [c]) = 10 * digits_val ds + digit_val c"
  by (simp add: digits_val_def)

lemma digits_val_dec_digits: "digits_val (dec_digits n) = n"
proof (induction n rule: dec_digits.induct)
  case (1 n)
  show ?case
  proof (cases "n < 10")
    case True
    then show ?thesis
      by (subst dec_digits.simps) (simp add: digits_val_def digit_val_digit_char)
  next
    case False
    then show ?thesis
      using 1 by (subst dec_digits.simps) (simp add: digits_val_snoc digit_val_digit_char)
  qed
qed

lemma dec_digits_inj: "dec_digits a = dec_digits b \<Longrightarrow> a = b"
  by (metis digits_val_dec_digits)

lemma digit_char_not_minus: "d < 10 \<Longrightarrow> digit_char d \<noteq> 0x2D"
proof -
  assume d: "d < 10"
  then have "(48 + d) mod 65536 = 48 + d" by simp
  then have u: "unat (of_nat (48 + d) :: 16 word) = 48 + d" by (simp only: unat_of_nat) simp
  show ?thesis
  proof
    assume "digit_char d = 0x2D"
    then have "unat (of_nat (48 + d) :: 16 word) = unat (0x2D :: 16 word)"
      by (simp only: digit_char_def)
    then show False unfolding u by simp
  qed
qed

lemma dec_digits_hd: "\<exists>c cs. dec_digits n = c # cs \<and> c \<noteq> 0x2D"
proof (induction n rule: dec_digits.induct)
  case (1 n)
  show ?case
  proof (cases "n < 10")
    case True
    then show ?thesis
      by (subst dec_digits.simps) (simp add: digit_char_not_minus)
  next
    case False
    then obtain c cs where "dec_digits (n div 10) = c # cs" "c \<noteq> 0x2D" using 1 by blast
    then show ?thesis
      using False by (subst dec_digits.simps) simp
  qed
qed

lemma int_to_string_inj: "int_to_string a = int_to_string b \<longleftrightarrow> a = b"
proof
  assume e: "int_to_string a = int_to_string b"
  obtain c cs where a: "dec_digits (nat a) = c # cs" "c \<noteq> 0x2D" using dec_digits_hd by blast
  obtain d ds where b: "dec_digits (nat b) = d # ds" "d \<noteq> 0x2D" using dec_digits_hd by blast
  show "a = b"
  proof (cases "a < 0")
    case True
    have "b < 0"
    proof (rule ccontr)
      assume "\<not> b < 0"
      then show False using e True b by (simp add: int_to_string_def)
    qed
    then show ?thesis using e True dec_digits_inj [of "nat (- a)" "nat (- b)"]
      by (simp add: int_to_string_def)
  next
    case False
    have "\<not> b < 0"
    proof
      assume "b < 0"
      then show False using e False a by (simp add: int_to_string_def)
    qed
    then show ?thesis using e False dec_digits_inj [of "nat a" "nat b"]
      by (simp add: int_to_string_def)
  qed
qed simp

lemma trim_Nil: "trim [] = []"
  by (simp add: trim_def)

lemma post_messages_result:
  assumes "holds (fs st) msgs" and "get_prop (req_body req) (S ''text'') = Some (JStr s)"
    and "trim s \<noteq> []"
  shows "post_messages cfg pf req params st =
     (let new = \<lparr>msg_id = int_to_string (Date_now pf), msg_text = trim s,
                 msg_timestamp = toISOString (new_Date pf)\<rparr>
      in Inr (if writable (fs st) \<and> data_file (fs st) \<noteq> Inaccessible
              then (\<lparr>res_status = 201, res_body = message_json new\<rparr>,
                    st\<lparr>fs := (fs st)\<lparr>data_file :=
                          Content (JSON_stringify (JArr (map message_json (msgs @ [new]))))\<rparr>\<rparr>)
              else (\<lparr>res_status = 500,
                     res_body = JObj [(S ''error'', JStr (S ''Failed to save message''))]\<rparr>, st)))"
proof -
  have "s \<noteq> []" using assms(3) trim_Nil by auto
  then show ?thesis
    using assms
    by (simp add: post_messages_def holds_def bind_def call_trim_def array_push_def
        writeMessages_result error_body_def Let_def message_json_def)
qed

lemma get_messages_result:
  "holds (fs st) msgs \<Longrightarrow>
   get_messages cfg pf req params st =
     Inr (\<lparr>res_status = 200, res_body = JArr (map message_json msgs)\<rparr>, st)"
  by (simp add: get_messages_def holds_def bind_def)

lemma handle_post_messages:
  assumes "req_method req = POST" and "req_path req = [S ''messages'']"
    and "get_prop (req_body req) (S ''text'') = Some (JStr s)" and "trim s \<noteq> []"
    and "holds (fs st) msgs"
    and "writable (fs st)" and "data_file (fs st) \<noteq> Inaccessible"
  shows "handle_request cfg pf req st =
     (\<lparr>res_status = 201,
       res_body = message_json \<lparr>msg_id = int_to_string (Date_now pf), msg_text = trim s,
                                 msg_timestamp = toISOString (new_Date pf)\<rparr>\<rparr>,
      st\<lparr>fs := (fs st)\<lparr>data_file := Content (JSON_stringify (JArr (map message_json
          (msgs @ [\<lparr>msg_id = int_to_string (Date_now pf), msg_text = trim s,
                    msg_timestamp = toISOString (new_Date pf)\<rparr>]))))\<rparr>\<rparr>)"
  using assms
  by (simp add: handle_request_def find_post_messages post_messages_result [OF assms(5,3,4)] Let_def)

lemma example_id: "int_to_string 1700000000000 = S ''1700000000000''"
  by (simp add: int_to_string_def dec_digits.simps S_def digit_char_def)

lemma example_timestamp: "toISOString 1700000000000 = S ''2023-11-14T22:13:20.000Z''"
proof -
  have d: "(1700000000000::int) div 86400000 = 19675" by simp
  have c: "civil_from_days 19675 = (2023, 11, 14)" by code_simp
  show ?thesis unfolding toISOString_def d c Let_def
    by (simp add: pad_def iso_year_def dec_digits.simps S_def digit_char_def numeral_2_eq_2)
qed

lemma example_trim: "trim (S ''first'') = S ''first''" "trim (S ''second'') = S ''second''"
  by (simp_all add: trim_def is_js_space_def S_def)

lemma post_request_fields:
  "req_method (post_request t) = POST" "req_path (post_request t) = [S ''messages'']"
  "get_prop (req_body (post_request t)) (S ''text'') = Some (JStr t)"
  by (simp_all add: post_request_def S_def)

lemma example_trim_nonempty: "trim (S ''first'') \<noteq> []" "trim (S ''second'') \<noteq> []"
  unfolding example_trim by (simp_all add: S_def)

lemma example_server_writable:
  "writable (fs (example_server msgs))" "data_file (fs (example_server msgs)) \<noteq> Inaccessible"
  by (simp_all add: fs_example_server)

subsection \<open>Timestamps: \<open>parse_iso\<close> reads what \<open>toISOString\<close> writes\<close>

lemma civil_roundtrip:
  assumes "civil_from_days z0 = (y, m, d)"
  shows "1 \<le> m \<and> m \<le> 12 \<and> 1 \<le> d \<and> d \<le> days_in_month y m \<and> days_from_civil y m d = z0 \<and>
         (- 719528 \<le> z0 \<and> z0 \<le> 2932896 \<longrightarrow> 0 \<le> y \<and> y \<le> 9999)"
proof -
  define z where "z = z0 + 719468"
  define era where "era = z div 146097"
  define doe where "doe = z mod 146097"
  define n100 where "n100 = min 3 (doe div 36524)"
  define r100 where "r100 = doe - n100 * 36524"
  define n4 where "n4 = r100 div 1461"
  define r4 where "r4 = r100 mod 1461"
  define n1 where "n1 = min 3 (r4 div 365)"
  define doy where "doy = r4 - n1 * 365"
  define yoe where "yoe = n100 * 100 + n4 * 4 + n1"
  define mp where "mp = (5 * doy + 2) div 153"
  have "civil_from_days z0 =
      (yoe + era * 400 + (if (if mp < 10 then mp + 3 else mp - 9) \<le> 2 then 1 else 0),
       (if mp < 10 then mp + 3 else mp - 9), doy - (153 * mp + 2) div 5 + 1)"
    unfolding civil_from_days_def Let_def mp_def yoe_def doy_def n1_def r4_def n4_def r100_def
      n100_def doe_def era_def z_def
    by (rule refl)
  then have m: "m = (if mp < 10 then mp + 3 else mp - 9)"
    and d: "d = doy - (153 * mp + 2) div 5 + 1"
    and y: "y = yoe + era * 400 + (if m \<le> 2 then 1 else 0)"
    using assms by simp_all
  have doe: "0 \<le> doe" "doe < 146097" by (simp_all add: doe_def)
  have zed: "z = era * 146097 + doe" by (simp add: era_def doe_def)
  have n100: "0 \<le> n100" "n100 \<le> 3" using doe by (simp_all add: n100_def)
  have r100: "0 \<le> r100" "r100 \<le> 36524" "r100 = 36524 \<longrightarrow> n100 = 3"
    using doe unfolding r100_def n100_def by (simp_all add: min_def) arith+
  have n4: "0 \<le> n4" "n4 \<le> 24" using r100 unfolding n4_def by simp_all
  have r4: "0 \<le> r4" "r4 \<le> 1460" by (simp_all add: r4_def)
  have r100_split: "r100 = n4 * 1461 + r4" by (simp add: n4_def r4_def)
  have n1: "0 \<le> n1" "n1 \<le> 3" using r4 by (simp_all add: n1_def)
  have doy: "0 \<le> doy" "doy \<le> 365" "doy = 365 \<longrightarrow> r4 = 1460 \<and> n1 = 3"
    using r4 unfolding doy_def n1_def by (simp_all add: min_def) arith+
  have yoe: "0 \<le> yoe" "yoe \<le> 399" using n100 n4 n1 by (simp_all add: yoe_def)
  have mp: "0 \<le> mp" "mp \<le> 11" using doy unfolding mp_def by simp_all
  have m_range: "1 \<le> m" "m \<le> 12" using mp by (simp_all add: m)
  have start_le: "(153 * mp + 2) div 5 \<le> doy" unfolding mp_def by arith
  have d_low: "1 \<le> d" using start_le by (simp add: d)
  have leap: "(y mod 4 = 0 \<and> y mod 100 \<noteq> 0) \<or> y mod 400 = 0" if "doy = 365" and "m = 2"
  proof -
    have r: "r4 = 1460" "n1 = 3" using doy(3) that by simp_all
    have yv: "y = n100 * 100 + n4 * 4 + 4 + era * 400"
      using that r by (simp add: y yoe_def)
    show ?thesis
    proof (cases "n4 = 24")
      case True
      then have "r100 = 36524" using r r100_split by simp
      then have "n100 = 3" using r100(3) by simp
      then have "y = 400 * (era + 1)" using yv True by simp
      then show ?thesis by simp
    next
      case False
      then have b: "0 \<le> n4" "n4 \<le> 23" using n4 by simp_all
      have "y mod 4 = 0" unfolding yv by presburger
      moreover have "y mod 100 \<noteq> 0" unfolding yv using b by presburger
      ultimately show ?thesis by simp
    qed
  qed
  have d_high: "d \<le> days_in_month y m"
  proof -
    have "mp = 0 \<or> mp = 1 \<or> mp = 2 \<or> mp = 3 \<or> mp = 4 \<or> mp = 5 \<or> mp = 6 \<or>
        mp = 7 \<or> mp = 8 \<or> mp = 9 \<or> mp = 10 \<or> mp = 11"
      using mp by arith
    then consider "mp = 0" | "mp = 1" | "mp = 2" | "mp = 3" | "mp = 4" | "mp = 5" | "mp = 6"
      | "mp = 7" | "mp = 8" | "mp = 9" | "mp = 10" | "mp = 11"
      by blast
    then show ?thesis
    proof cases
      case 1
      then have "doy \<le> 30" unfolding mp_def by arith
      then show ?thesis using 1 by (simp add: d m days_in_month_def)
    next
      case 2
      then have "doy \<le> 60" unfolding mp_def by arith
      then show ?thesis using 2 by (simp add: d m days_in_month_def)
    next
      case 3
      then have "doy \<le> 91" unfolding mp_def by arith
      then show ?thesis using 3 by (simp add: d m days_in_month_def)
    next
      case 4
      then have "doy \<le> 121" unfolding mp_def by arith
      then show ?thesis using 4 by (simp add: d m days_in_month_def)
    next
      case 5
      then have "doy \<le> 152" unfolding mp_def by arith
      then show ?thesis using 5 by (simp add: d m days_in_month_def)
    next
      case 6
      then have "doy \<le> 183" unfolding mp_def by arith
      then show ?thesis using 6 by (simp add: d m days_in_month_def)
    next
      case 7
      then have "doy \<le> 213" unfolding mp_def by arith
      then show ?thesis using 7 by (simp add: d m days_in_month_def)
    next
      case 8
      then have "doy \<le> 244" unfolding mp_def by arith
      then show ?thesis using 8 by (simp add: d m days_in_month_def)
    next
      case 9
      then have "doy \<le> 274" unfolding mp_def by arith
      then show ?thesis using 9 by (simp add: d m days_in_month_def)
    next
      case 10
      then have "doy \<le> 305" unfolding mp_def by arith
      then show ?thesis using 10 by (simp add: d m days_in_month_def)
    next
      case 11
      then have "doy \<le> 336" unfolding mp_def by arith
      then show ?thesis using 11 by (simp add: d m days_in_month_def)
    next
      case 12
      have m2: "m = 2" using 12 by (simp add: m)
      have dv: "d = doy - 336" using 12 by (simp add: d)
      show ?thesis
      proof (cases "doy = 365")
        case True
        then show ?thesis using leap [OF True m2] m2 dv by (auto simp: days_in_month_def)
      next
        case False
        then have "doy \<le> 364" using doy by simp
        then show ?thesis using m2 dv by (simp add: days_in_month_def)
      qed
    qed
  qed
  have inverse: "days_from_civil y m d = z0"
  proof -
    have y': "(if m \<le> 2 then y - 1 else y) = yoe + era * 400" by (simp add: y)
    have e': "(yoe + era * 400) div 400 = era" using yoe by simp
    have mp': "(if 2 < m then m - 3 else m + 9) = mp" using mp by (simp add: m)
    have doy': "(153 * mp + 2) div 5 + d - 1 = doy" by (simp add: d)
    have q4: "yoe div 4 = n100 * 25 + n4" using n1 unfolding yoe_def by arith
    have q100: "yoe div 100 = n100" using n1 n4 unfolding yoe_def by arith
    have doe': "yoe * 365 + yoe div 4 - yoe div 100 + doy = doe"
      unfolding q4 q100 using r100_split by (simp add: yoe_def doy_def r100_def)
    have "days_from_civil y m d = era * 146097 + doe - 719468"
      unfolding days_from_civil_def Let_def y' e' mp' doy' using doe' by simp
    then show ?thesis using zed by (simp add: z_def)
  qed
  have year: "0 \<le> y \<and> y \<le> 9999" if lo: "- 719528 \<le> z0" and hi: "z0 \<le> 2932896"
  proof -
    have zb: "- 60 \<le> z" "z \<le> 3652364" using lo hi by (simp_all add: z_def)
    have eb: "- 1 \<le> era" "era \<le> 24" using zb unfolding era_def by arith+
    have low: "0 \<le> y"
    proof (cases "era = - 1")
      case True
      then have a: "146037 \<le> doe" using zed zb by simp
      then have b: "n100 = 3" using doe unfolding n100_def by arith
      then have c: "36465 \<le> r100" using a by (simp add: r100_def)
      then have e: "n4 = 24" using r100 unfolding n4_def by arith
      then have f: "1401 \<le> r4" using c r100_split by simp
      then have g: "n1 = 3" using r4 unfolding n1_def by arith
      then have "306 \<le> doy" using f by (simp add: doy_def)
      then have "10 \<le> mp" unfolding mp_def by arith
      then have "m \<le> 2" using mp by (simp add: m)
      then show ?thesis using True b e g by (simp add: y yoe_def)
    next
      case False
      then have "0 \<le> era" using eb by simp
      then show ?thesis using yoe by (simp add: y)
    qed
    have high: "y \<le> 9999"
    proof (cases "era = 24 \<and> yoe = 399")
      case True
      then have a: "doe \<le> 146036" using zed zb by simp
      have b: "n100 = 3 \<and> n4 = 24 \<and> n1 = 3" using True n100 n4 n1 unfolding yoe_def by arith
      then have c: "r100 \<le> 36464" using a by (simp add: r100_def)
      then have "r4 \<le> 1400" using b r100_split by simp
      then have "doy \<le> 305" using b by (simp add: doy_def)
      then have "mp \<le> 9" unfolding mp_def by arith
      then have "\<not> m \<le> 2" using mp by (simp add: m)
      then show ?thesis using True by (simp add: y)
    next
      case False
      then have "era \<le> 23 \<or> yoe \<le> 398" using eb yoe by arith
      then show ?thesis using eb yoe by (auto simp: y)
    qed
    show ?thesis using low high by simp
  qed
  show ?thesis using m_range d_low d_high inverse year by simp
qed

lemma is_digit_digit_char: "d < 10 \<Longrightarrow> is_digit (digit_char d)"
proof -
  assume d: "d < 10"
  then have "(48 + d) mod 65536 = 48 + d" by simp
  then have u: "unat (of_nat (48 + d) :: 16 word) = 48 + d" by (simp only: unat_of_nat) simp
  have n: "unat (0x30 :: 16 word) = 48" "unat (0x39 :: 16 word) = 57" by simp_all
  show ?thesis unfolding is_digit_def digit_char_def word_le_nat_alt u n using d by simp
qed

lemma dec_digits_all_digits: "list_all is_digit (dec_digits n)"
proof (induction n rule: dec_digits.induct)
  case (1 n)
  show ?case
  proof (cases "n < 10")
    case True
    then show ?thesis by (subst dec_digits.simps) (simp add: is_digit_digit_char)
  next
    case False
    then show ?thesis using 1 by (subst dec_digits.simps) (simp add: is_digit_digit_char)
  qed
qed

lemma length_dec_digits: "n < 10 ^ k \<Longrightarrow> 0 < k \<Longrightarrow> length (dec_digits n) \<le> k"
proof (induction n arbitrary: k rule: dec_digits.induct)
  case (1 n)
  show ?case
  proof (cases "n < 10")
    case True
    then show ?thesis using "1.prems" by (subst dec_digits.simps) simp
  next
    case False
    obtain j where k: "k = Suc j" using "1.prems"(2) by (cases k) auto
    have "j \<noteq> 0" using False "1.prems"(1) k by (cases j) auto
    then have j: "0 < j" by simp
    have "n div 10 < 10 ^ j" using "1.prems"(1) k by (simp add: less_mult_imp_div_less mult.commute)
    then have "length (dec_digits (n div 10)) \<le> j" using 1(1) [OF False _ j] by simp
    then show ?thesis using False k by (subst dec_digits.simps) simp
  qed
qed

lemma digits_val_leading_zeros: "digits_val (replicate z 0x30 @ ds) = digits_val ds"
  by (induction z) (simp_all add: digits_val_def digit_val_def)

lemma pad_props:
  assumes "0 \<le> n" and "n < 10 ^ w" and "0 < w"
  shows "length (pad w n) = w" and "list_all is_digit (pad w n)" and "digits_val (pad w n) = nat n"
proof -
  have "nat n < 10 ^ w" using assms(1,2) by (simp add: nat_less_iff)
  then have l: "length (dec_digits (nat n)) \<le> w" using assms(3) by (rule length_dec_digits)
  show "length (pad w n) = w" using l by (simp add: pad_def)
  have z: "is_digit 0x30" by (simp add: is_digit_def)
  show "list_all is_digit (pad w n)"
    using dec_digits_all_digits [of "nat n"] z by (auto simp: pad_def list_all_iff)
  show "digits_val (pad w n) = nat n"
    by (simp add: pad_def digits_val_leading_zeros digits_val_dec_digits)
qed

lemma time_of_day:
  fixes ms :: int
  assumes "0 \<le> ms" and "ms < 86400000"
  shows "0 \<le> ms div 3600000 \<and> ms div 3600000 \<le> 23 \<and>
         0 \<le> ms div 60000 mod 60 \<and> ms div 60000 mod 60 \<le> 59 \<and>
         0 \<le> ms div 1000 mod 60 \<and> ms div 1000 mod 60 \<le> 59 \<and>
         0 \<le> ms mod 1000 \<and> ms mod 1000 \<le> 999 \<and>
         ms div 3600000 * 3600000 + ms div 60000 mod 60 * 60000 + ms div 1000 mod 60 * 1000 +
           ms mod 1000 = ms"
proof -
  have a: "ms div 60000 = ms div 1000 div 60" by (simp add: zdiv_zmult2_eq)
  have b: "ms div 3600000 = ms div 1000 div 60 div 60" by (simp add: zdiv_zmult2_eq)
  have c: "ms div 3600000 \<le> 23" using assms by simp
  have d: "0 \<le> ms div 3600000" using assms by simp
  define q1 where "q1 = ms div 1000"
  define q2 where "q2 = q1 div 60"
  define a0 where "a0 = q2 div 60"
  define b0 where "b0 = q2 mod 60"
  define c0 where "c0 = q1 mod 60"
  define d0 where "d0 = ms mod 1000"
  have s1: "ms = 1000 * q1 + d0" by (simp add: q1_def d0_def)
  have s2: "q1 = 60 * q2 + c0" by (simp add: q2_def c0_def)
  have s3: "q2 = 60 * a0 + b0" by (simp add: a0_def b0_def)
  have "a0 * 3600000 + b0 * 60000 + c0 * 1000 + d0 = ms"
    using s1 s2 s3 by linarith
  then have e: "ms div 3600000 * 3600000 + ms div 60000 mod 60 * 60000 + ms div 1000 mod 60 * 1000 +
           ms mod 1000 = ms"
    unfolding a b a0_def b0_def c0_def d0_def q2_def q1_def .
  have f: "0 \<le> ms div 60000 mod 60" "ms div 60000 mod 60 \<le> 59"
    "0 \<le> ms div 1000 mod 60" "ms div 1000 mod 60 \<le> 59"
    "0 \<le> ms mod 1000" "ms mod 1000 \<le> 999"
    by simp_all
  show ?thesis by (intro conjI) (fact c d e f)+
qed

lemma list_of_length_2: "length xs = 2 \<Longrightarrow> \<exists>a b. xs = [a, b]"
  by (auto simp: length_Suc_conv numeral_2_eq_2)

lemma list_of_length_3: "length xs = 3 \<Longrightarrow> \<exists>a b c. xs = [a, b, c]"
  by (auto simp: length_Suc_conv numeral_3_eq_3)

lemma list_of_length_4: "length xs = 4 \<Longrightarrow> \<exists>a b c d. xs = [a, b, c, d]"
proof -
  assume "length xs = 4"
  then have "length xs = Suc (Suc (Suc (Suc 0)))" by simp
  then show ?thesis by (auto simp: length_Suc_conv)
qed

lemma parse_iso_toISOString:
  assumes "- 62167219200000 \<le> t" and "t \<le> 253402300799999"
  shows "parse_iso (toISOString t) = Some t"
proof -
  define day where "day = t div 86400000"
  define ms where "ms = t mod 86400000"
  obtain y m d where c: "civil_from_days day = (y, m, d)" by (cases "civil_from_days day") auto
  have db: "- 719528 \<le> day" "day \<le> 2932896" using assms unfolding day_def by arith+
  have cal: "1 \<le> m" "m \<le> 12" "1 \<le> d" "d \<le> days_in_month y m" "days_from_civil y m d = day"
    "0 \<le> y" "y \<le> 9999"
    using civil_roundtrip [OF c] db by simp_all
  have "d \<le> 31" using cal(4) by (simp add: days_in_month_def split: if_splits)
  have msb: "0 \<le> ms" "ms < 86400000" by (simp_all add: ms_def)
  define h where "h = ms div 3600000"
  define mi where "mi = ms div 60000 mod 60"
  define sec where "sec = ms div 1000 mod 60"
  define msec where "msec = ms mod 1000"
  have tod: "0 \<le> h" "h \<le> 23" "0 \<le> mi" "mi \<le> 59" "0 \<le> sec" "sec \<le> 59" "0 \<le> msec" "msec \<le> 999"
    "h * 3600000 + mi * 60000 + sec * 1000 + msec = ms"
    using time_of_day [OF msb] by (simp_all add: h_def mi_def sec_def msec_def)
  have split: "day * 86400000 + ms = t" by (simp add: day_def ms_def)
  note py = pad_props [of y 4] and pm = pad_props [of m 2] and pd = pad_props [of d 2]
    and ph = pad_props [of h 2] and pmi = pad_props [of mi 2] and ps = pad_props [of sec 2]
    and pms = pad_props [of msec 3]
  obtain y1 y2 y3 y4 where ey: "pad 4 y = [y1, y2, y3, y4]"
    using list_of_length_4 [OF py(1)] cal by auto
  obtain m1 m2 where em: "pad 2 m = [m1, m2]" using list_of_length_2 [OF pm(1)] cal by auto
  obtain d1 d2 where ed: "pad 2 d = [d1, d2]"
    using list_of_length_2 [OF pd(1)] cal \<open>d \<le> 31\<close> by auto
  obtain h1 h2 where eh: "pad 2 h = [h1, h2]" using list_of_length_2 [OF ph(1)] tod by auto
  obtain i1 i2 where ei: "pad 2 mi = [i1, i2]" using list_of_length_2 [OF pmi(1)] tod by auto
  obtain s1 s2 where es: "pad 2 sec = [s1, s2]" using list_of_length_2 [OF ps(1)] tod by auto
  obtain f1 f2 f3 where ef: "pad 3 msec = [f1, f2, f3]"
    using list_of_length_3 [OF pms(1)] tod by auto
  have vy: "list_all is_digit [y1, y2, y3, y4]" "digits_val [y1, y2, y3, y4] = nat y"
    using py(2,3) cal unfolding ey by simp_all
  have vm: "list_all is_digit [m1, m2]" "digits_val [m1, m2] = nat m"
    using pm(2,3) cal unfolding em by simp_all
  have vd: "list_all is_digit [d1, d2]" "digits_val [d1, d2] = nat d"
    using pd(2,3) cal \<open>d \<le> 31\<close> unfolding ed by simp_all
  have vh: "list_all is_digit [h1, h2]" "digits_val [h1, h2] = nat h"
    using ph(2,3) tod unfolding eh by simp_all
  have vi: "list_all is_digit [i1, i2]" "digits_val [i1, i2] = nat mi"
    using pmi(2,3) tod unfolding ei by simp_all
  have vs: "list_all is_digit [s1, s2]" "digits_val [s1, s2] = nat sec"
    using ps(2,3) tod unfolding es by simp_all
  have vf: "list_all is_digit [f1, f2, f3]" "digits_val [f1, f2, f3] = nat msec"
    using pms(2,3) tod unfolding ef by simp_all
  have str: "toISOString t =
      [y1, y2, y3, y4, 0x2D, m1, m2, 0x2D, d1, d2, 0x54, h1, h2, 0x3A, i1, i2, 0x3A, s1, s2, 0x2E,
       f1, f2, f3, 0x5A]"
    unfolding toISOString_def day_def [symmetric] ms_def [symmetric] c Let_def prod.case
      h_def [symmetric] mi_def [symmetric] sec_def [symmetric] msec_def [symmetric]
    using cal by (simp add: iso_year_def ey em ed eh ei es ef S_def)
  show ?thesis
    unfolding str parse_iso_def number_at_def
    using vy vm vd vh vi vs vf cal tod split
    by (simp add: Let_def)
qed

text \<open>
  C4. For every \<open>text\<close> that is a string and not empty after trimming, POST /messages
  (on a store that holds a collection and takes the write) answers 201 with the created
  message: its \<open>text\<close> is the trimmed input, its \<open>id\<close> is the decimal string of
  \<open>Date.now()\<close>, its \<open>timestamp\<close> is \<open>toISOString\<close> of the server's \<open>new Date()\<close>,
  read while the request is handled: an ISO-8601 UTC string which, for a clock within the
  years 0000 to 9999, parses back to exactly that reading. A GET /messages that follows
  answers the old collection followed by exactly that message.
\<close>

theorem post_then_get:
  assumes "req_method req = POST" and "req_path req = [S ''messages'']"
    and "get_prop (req_body req) (S ''text'') = Some (JStr s)" and "trim s \<noteq> []"
    and "holds (fs st) msgs"
    and "writable (fs st)" and "data_file (fs st) \<noteq> Inaccessible"
    and "req_method get = GET" and "req_path get = [S ''messages'']"
    and "new = \<lparr>msg_id = int_to_string (Date_now pf), msg_text = trim s,
                 msg_timestamp = toISOString (new_Date pf)\<rparr>"
  shows "(\<exists>st'. handle_request cfg pf req st =
                  (\<lparr>res_status = 201, res_body = message_json new\<rparr>, st') \<and>
                handle_request cfg pf' get st' =
                  (\<lparr>res_status = 200, res_body = JArr (map message_json (msgs @ [new]))\<rparr>, st')) \<and>
         (- 62167219200000 \<le> new_Date pf \<and> new_Date pf \<le> 253402300799999 \<longrightarrow>
            parse_iso (msg_timestamp new) = Some (new_Date pf))"
proof (intro conjI impI)
  let ?st' = "st\<lparr>fs := (fs st)\<lparr>data_file :=
       Content (JSON_stringify (JArr (map message_json (msgs @ [new]))))\<rparr>\<rparr>"
  have p: "handle_request cfg pf req st = (\<lparr>res_status = 201, res_body = message_json new\<rparr>, ?st')"
    using assms
    by (simp add: handle_request_def find_post_messages post_messages_result [OF assms(5,3,4)] Let_def)
  have h: "holds (fs ?st') (msgs @ [new])"
    using holds_after_write [where files = "fs st" and msgs = "msgs @ [new]"] by simp
  have g: "handle_request cfg pf' get ?st' =
      (\<lparr>res_status = 200, res_body = JArr (map message_json (msgs @ [new]))\<rparr>, ?st')"
    using assms(8,9) get_messages_result [OF h, of cfg pf' get "[]"]
    by (simp add: handle_request_def find_get_messages)
  show "\<exists>st'. handle_request cfg pf req st =
                  (\<lparr>res_status = 201, res_body = message_json new\<rparr>, st') \<and>
                handle_request cfg pf' get st' =
                  (\<lparr>res_status = 200, res_body = JArr (map message_json (msgs @ [new]))\<rparr>, st')"
    using p g by blast
next
  assume "- 62167219200000 \<le> new_Date pf \<and> new_Date pf \<le> 253402300799999"
  then show "parse_iso (msg_timestamp new) = Some (new_Date pf)"
    by (simp add: assms(10) parse_iso_toISOString)
qed

theorem post_then_get_witness:
  "(\<exists>st'. handle_request example_config (example_platform 1700000000000)
            (post_request (S ''first'')) (example_server [old_message]) =
          (\<lparr>res_status = 201,
            res_body = message_json \<lparr>msg_id = S ''1700000000000'', msg_text = S ''first'',
                                     msg_timestamp = S ''2023-11-14T22:13:20.000Z''\<rparr>\<rparr>, st') \<and>
        handle_request example_config (example_platform 1700000000001)
            \<lparr>req_method = GET, req_path = [S ''messages''], req_originalUrl = S ''/messages'',
             req_body = JObj []\<rparr> st' =
          (\<lparr>res_status = 200,
            res_body = JArr (map message_json
              ([old_message] @
               [\<lparr>msg_id = S ''1700000000000'', msg_text = S ''first'',
                 msg_timestamp = S ''2023-11-14T22:13:20.000Z''\<rparr>]))\<rparr>, st')) \<and>
   parse_iso (S ''2023-11-14T22:13:20.000Z'') = Some 1700000000000"
proof -
  let ?get = "\<lparr>req_method = GET, req_path = [S ''messages''], req_originalUrl = S ''/messages'',
             req_body = JObj []\<rparr>"
  have m: "\<lparr>msg_id = S ''1700000000000'', msg_text = S ''first'',
            msg_timestamp = S ''2023-11-14T22:13:20.000Z''\<rparr> =
      \<lparr>msg_id = int_to_string (Date_now (example_platform 1700000000000)),
       msg_text = trim (S ''first''),
       msg_timestamp = toISOString (new_Date (example_platform 1700000000000))\<rparr>"
    by (simp add: example_platform_def example_id example_timestamp example_trim)
  have g: "req_method ?get = GET" "req_path ?get = [S ''messages'']" by simp_all
  have n: "new_Date (example_platform 1700000000000) = 1700000000000"
    by (simp add: example_platform_def)
  show ?thesis
    using post_then_get [OF post_request_fields example_trim_nonempty(1)
          holds_example_server [of "[old_message]"] example_server_writable [of "[old_message]"]
          g m, where cfg = example_config and pf' = "example_platform 1700000000001"]
    by (simp add: n)
qed

section \<open>Message ids\<close>

lemma two_appends:
  assumes "req_method req1 = POST" and "req_path req1 = [S ''messages'']"
    and "get_prop (req_body req1) (S ''text'') = Some (JStr s1)" and "trim s1 \<noteq> []"
    and "req_method req2 = POST" and "req_path req2 = [S ''messages'']"
    and "get_prop (req_body req2) (S ''text'') = Some (JStr s2)" and "trim s2 \<noteq> []"
    and "holds (fs st) msgs" and "writable (fs st)" and "data_file (fs st) \<noteq> Inaccessible"
    and "m1 = \<lparr>msg_id = int_to_string (Date_now pf1), msg_text = trim s1,
                msg_timestamp = toISOString (new_Date pf1)\<rparr>"
    and "m2 = \<lparr>msg_id = int_to_string (Date_now pf2), msg_text = trim s2,
                msg_timestamp = toISOString (new_Date pf2)\<rparr>"
  shows "\<exists>st1 st2.
           handle_request cfg pf1 req1 st = (\<lparr>res_status = 201, res_body = message_json m1\<rparr>, st1) \<and>
           handle_request cfg pf2 req2 st1 = (\<lparr>res_status = 201, res_body = message_json m2\<rparr>, st2) \<and>
           holds (fs st2) (msgs @ [m1, m2])"
proof -
  let ?st1 = "st\<lparr>fs := (fs st)\<lparr>data_file :=
      Content (JSON_stringify (JArr (map message_json (msgs @ [m1]))))\<rparr>\<rparr>"
  let ?st2 = "?st1\<lparr>fs := (fs ?st1)\<lparr>data_file :=
      Content (JSON_stringify (JArr (map message_json ((msgs @ [m1]) @ [m2]))))\<rparr>\<rparr>"
  have a: "handle_request cfg pf1 req1 st = (\<lparr>res_status = 201, res_body = message_json m1\<rparr>, ?st1)"
    unfolding assms(12) by (rule handle_post_messages [OF assms(1-4,9-11)])
  have h1: "holds (fs ?st1) (msgs @ [m1])"
    using holds_after_write [where files = "fs st" and msgs = "msgs @ [m1]"] by simp
  have w1: "writable (fs ?st1)" "data_file (fs ?st1) \<noteq> Inaccessible"
    using assms(10) by simp_all
  have b: "handle_request cfg pf2 req2 ?st1 = (\<lparr>res_status = 201, res_body = message_json m2\<rparr>, ?st2)"
    unfolding assms(13) by (rule handle_post_messages [OF assms(5-8) h1 w1])
  have h2: "holds (fs ?st2) (msgs @ [m1, m2])"
    using holds_after_write [where files = "fs ?st1" and msgs = "(msgs @ [m1]) @ [m2]"] by simp
  show ?thesis using a b h2 by blast
qed

text \<open>
  C2, as amended. The id of a created message is the decimal string of the millisecond
  clock reading \<open>Date.now()\<close> taken when it is created. Two appends, one after the other,
  both answer 201 and leave both messages in the stored collection, and their ids are
  equal exactly when the two clock readings are equal: ids are distinct only for messages
  created in different milliseconds.
\<close>

theorem two_appends_ids:
  assumes "req_method req1 = POST" and "req_path req1 = [S ''messages'']"
    and "get_prop (req_body req1) (S ''text'') = Some (JStr s1)" and "trim s1 \<noteq> []"
    and "req_method req2 = POST" and "req_path req2 = [S ''messages'']"
    and "get_prop (req_body req2) (S ''text'') = Some (JStr s2)" and "trim s2 \<noteq> []"
    and "holds (fs st) msgs" and "writable (fs st)" and "data_file (fs st) \<noteq> Inaccessible"
    and "m1 = \<lparr>msg_id = int_to_string (Date_now pf1), msg_text = trim s1,
                msg_timestamp = toISOString (new_Date pf1)\<rparr>"
    and "m2 = \<lparr>msg_id = int_to_string (Date_now pf2), msg_text = trim s2,
                msg_timestamp = toISOString (new_Date pf2)\<rparr>"
  shows "\<exists>st1 st2.
           handle_request cfg pf1 req1 st = (\<lparr>res_status = 201, res_body = message_json m1\<rparr>, st1) \<and>
           handle_request cfg pf2 req2 st1 = (\<lparr>res_status = 201, res_body = message_json m2\<rparr>, st2) \<and>
           holds (fs st2) (msgs @ [m1, m2]) \<and>
           (msg_id m1 = msg_id m2 \<longleftrightarrow> Date_now pf1 = Date_now pf2)"
proof -
  have i: "msg_id m1 = msg_id m2 \<longleftrightarrow> Date_now pf1 = Date_now pf2"
    by (simp add: assms(12,13) int_to_string_inj)
  show ?thesis using two_appends [OF assms, of cfg] i by blast
qed

lemma example_id_next: "int_to_string 1700000000001 = S ''1700000000001''"
  by (simp add: int_to_string_def dec_digits.simps S_def digit_char_def)

lemma example_timestamp_next: "toISOString 1700000000001 = S ''2023-11-14T22:13:20.001Z''"
proof -
  have d: "(1700000000001::int) div 86400000 = 19675" by simp
  have c: "civil_from_days 19675 = (2023, 11, 14)" by code_simp
  show ?thesis unfolding toISOString_def d c Let_def
    by (simp add: pad_def iso_year_def dec_digits.simps S_def digit_char_def numeral_2_eq_2)
qed

theorem two_appends_ids_witness:
  "\<exists>st1 st2.
     handle_request example_config (example_platform 1700000000000) (post_request (S ''first''))
       (example_server []) =
       (\<lparr>res_status = 201,
         res_body = message_json \<lparr>msg_id = S ''1700000000000'', msg_text = S ''first'',
                                  msg_timestamp = S ''2023-11-14T22:13:20.000Z''\<rparr>\<rparr>, st1) \<and>
     handle_request example_config (example_platform 1700000000001) (post_request (S ''second''))
       st1 =
       (\<lparr>res_status = 201,
         res_body = message_json \<lparr>msg_id = S ''1700000000001'', msg_text = S ''second'',
                                  msg_timestamp = S ''2023-11-14T22:13:20.001Z''\<rparr>\<rparr>, st2) \<and>
     S ''1700000000000'' \<noteq> S ''1700000000001''"
proof -
  let ?m1 = "\<lparr>msg_id = S ''1700000000000'', msg_text = S ''first'',
       msg_timestamp = S ''2023-11-14T22:13:20.000Z''\<rparr>"
  let ?m2 = "\<lparr>msg_id = S ''1700000000001'', msg_text = S ''second'',
       msg_timestamp = S ''2023-11-14T22:13:20.001Z''\<rparr>"
  have m: "?m1 = \<lparr>msg_id = int_to_string (Date_now (example_platform 1700000000000)),
                msg_text = trim (S ''first''),
                msg_timestamp = toISOString (new_Date (example_platform 1700000000000))\<rparr>"
    "?m2 = \<lparr>msg_id = int_to_string (Date_now (example_platform 1700000000001)),
                msg_text = trim (S ''second''),
                msg_timestamp = toISOString (new_Date (example_platform 1700000000001))\<rparr>"
    by (simp_all add: example_platform_def example_id example_timestamp example_trim
        example_id_next example_timestamp_next)
  have n: "Date_now (example_platform 1700000000000) \<noteq> Date_now (example_platform 1700000000001)"
    by (simp add: example_platform_def)
  show ?thesis
    using two_appends_ids [OF post_request_fields example_trim_nonempty(1)
        post_request_fields example_trim_nonempty(2) holds_example_server [of "[]"]
        example_server_writable [of "[]"] m, of example_config] n
    by auto
qed

text \<open>
  The claim as first stated fails: two messages appended within one millisecond get the
  same id, and both stay in the stored collection.
\<close>

theorem same_millisecond_same_id:
  "fst (handle_request example_config (example_platform 1700000000000)
          (post_request (S ''first'')) (example_server [])) =
     \<lparr>res_status = 201,
      res_body = message_json \<lparr>msg_id = S ''1700000000000'', msg_text = S ''first'',
                               msg_timestamp = S ''2023-11-14T22:13:20.000Z''\<rparr>\<rparr> \<and>
   fst (handle_request example_config (example_platform 1700000000000)
          (post_request (S ''second''))
          (snd (handle_request example_config (example_platform 1700000000000)
                  (post_request (S ''first'')) (example_server [])))) =
     \<lparr>res_status = 201,
      res_body = message_json \<lparr>msg_id = S ''1700000000000'', msg_text = S ''second'',
                               msg_timestamp = S ''2023-11-14T22:13:20.000Z''\<rparr>\<rparr> \<and>
   holds (fs (snd (handle_request example_config (example_platform 1700000000000)
                     (post_request (S ''second''))
                     (snd (handle_request example_config (example_platform 1700000000000)
                             (post_request (S ''first'')) (example_server []))))))
     [\<lparr>msg_id = S ''1700000000000'', msg_text = S ''first'',
       msg_timestamp = S ''2023-11-14T22:13:20.000Z''\<rparr>,
      \<lparr>msg_id = S ''1700000000000'', msg_text = S ''second'',
       msg_timestamp = S ''2023-11-14T22:13:20.000Z''\<rparr>]"
proof -
  let ?m1 = "\<lparr>msg_id = S ''1700000000000'', msg_text = S ''first'',
       msg_timestamp = S ''2023-11-14T22:13:20.000Z''\<rparr>"
  let ?m2 = "\<lparr>msg_id = S ''1700000000000'', msg_text = S ''second'',
       msg_timestamp = S ''2023-11-14T22:13:20.000Z''\<rparr>"
  have m: "?m1 = \<lparr>msg_id = int_to_string (Date_now (example_platform 1700000000000)),
                msg_text = trim (S ''first''),
                msg_timestamp = toISOString (new_Date (example_platform 1700000000000))\<rparr>"
    "?m2 = \<lparr>msg_id = int_to_string (Date_now (example_platform 1700000000000)),
                msg_text = trim (S ''second''),
                msg_timestamp = toISOString (new_Date (example_platform 1700000000000))\<rparr>"
    by (simp_all add: example_platform_def example_id example_timestamp example_trim)
  obtain st1 st2 where
    "handle_request example_config (example_platform 1700000000000) (post_request (S ''first''))
       (example_server []) = (\<lparr>res_status = 201, res_body = message_json ?m1\<rparr>, st1)"
    "handle_request example_config (example_platform 1700000000000) (post_request (S ''second''))
       st1 = (\<lparr>res_status = 201, res_body = message_json ?m2\<rparr>, st2)"
    "holds (fs st2) ([] @ [?m1, ?m2])"
    using two_appends [OF post_request_fields example_trim_nonempty(1)
          post_request_fields example_trim_nonempty(2) holds_example_server [of "[]"]
          example_server_writable [of "[]"] m, of example_config]
    by blast
  then show ?thesis by simp
qed

end
